theory Spec2Isabelle
  imports Complex_Main "HOL-Library.Char_ord" "HOL-Library.List_Lexorder" "HOL-Library.Sublist"
    "HOL-Library.Log_Nat"
begin

section \<open>gallery\_xlsx\_export.py: the layout and scaling engine\<close>

text \<open>
  A shallow embedding of \<^verbatim>\<open>src/gallery_xlsx_export.py\<close>.

  Conventions of the model.
  \<^item> Python \<^verbatim>\<open>int\<close> is \<open>int\<close>.
  \<^item> Python \<^verbatim>\<open>float\<close> is \<open>pyfloat\<close>, an IEEE 754 binary64 value: a finite double is
    \<open>Fin x\<close> for the rational number \<open>x\<close> it denotes, and there are the two infinities and
    NaN. Every arithmetic operation returns the exact result rounded to the nearest
    double, a tie going to the even significand (\<open>fl\<close>). The zeros \<open>0.0\<close> and \<open>-0.0\<close> are one
    value: the program never formats a zero and never divides by one without raising.
  \<^item> Python \<^verbatim>\<open>str\<close> is \<open>string\<close>, a \<open>char\<close> being read as a code point in 0..255.
  \<^item> \<^verbatim>\<open>None\<close> is \<open>None\<close>. An exception is a value of \<open>py_error\<close>, and a computation that
    may raise returns \<open>py_error + 'a\<close>, \<open>Inl\<close> the exception raised.
  \<^item> The operating system, Pillow and xlsxwriter are parameters (record \<open>env\<close>).
\<close>

subsection \<open>Python primitives used by the source\<close>

datatype py_error =
    FileNotFoundError
  | OtherOSError
  | ImageError
  | OverflowError
  | ValueError
  | ZeroDivisionError

text \<open>Sequencing: the second computation runs when the first has raised nothing.\<close>

definition and_then :: "'e + 'a \<Rightarrow> ('a \<Rightarrow> 'e + 'b) \<Rightarrow> 'e + 'b" where
  "and_then m f = (case m of Inl err \<Rightarrow> Inl err | Inr x \<Rightarrow> f x)"

text \<open>A loop that appends one result per element and stops at the first exception.\<close>

fun map_err :: "('a \<Rightarrow> 'e + 'b) \<Rightarrow> 'a list \<Rightarrow> 'e + 'b list" where
  "map_err f [] = Inr []"
| "map_err f (x # xs) =
     (case f x of
        Inl err \<Rightarrow> Inl err
      | Inr y \<Rightarrow> (case map_err f xs of Inl err \<Rightarrow> Inl err | Inr ys \<Rightarrow> Inr (y # ys)))"

text \<open>\<^verbatim>\<open>int(x)\<close> of a finite float of value \<open>x\<close>: truncation toward zero.\<close>

definition py_int :: "rat \<Rightarrow> int" where
  "py_int x = (if 0 \<le> x then \<lfloor>x\<rfloor> else \<lceil>x\<rceil>)"

text \<open>
  \<^verbatim>\<open>round(x)\<close> of a finite float of value \<open>x\<close>, one argument: the nearest integer, a tie
  going to the even one.
\<close>

definition py_round :: "rat \<Rightarrow> int" where
  "py_round x =
     (let f = \<lfloor>x\<rfloor>; d = x - of_int f
      in if d < 1 / 2 then f
         else if 1 / 2 < d then f + 1
         else if even f then f else f + 1)"

text \<open>\<^verbatim>\<open>max(iterable, default=d)\<close>.\<close>

definition py_max_default :: "int \<Rightarrow> int list \<Rightarrow> int" where
  "py_max_default d xs = (case xs of [] \<Rightarrow> d | y # ys \<Rightarrow> foldl max y ys)"

subsection \<open>Double-precision floats\<close>

datatype pyfloat = Fin rat | PInf | NInf | NaN

text \<open>The binary exponent of a positive rational: \<open>2 powi (ilog2 x) \<le> x < 2 powi (ilog2 x + 1)\<close>.\<close>

definition ilog2 :: "rat \<Rightarrow> int" where
  "ilog2 x =
     (case quotient_of x of
        (n, d) \<Rightarrow> let k = bitlen n - bitlen d in if 2 powi k \<le> x then k else k - 1)"

text \<open>
  The spacing of the doubles around \<open>x\<close>: 53 significant bits, the exponent not below
  that of the subnormal range.
\<close>

definition ulp :: "rat \<Rightarrow> rat" where
  "ulp x = 2 powi (max (ilog2 \<bar>x\<bar>) (- 1022) - 52)"

text \<open>
  Rounding to the nearest double, ties to even; a result of magnitude \<open>2 ^ 1024\<close> or more
  is an infinity.
\<close>

definition fl :: "rat \<Rightarrow> pyfloat" where
  "fl x =
     (if x = 0 then Fin 0
      else
        let y = of_int (py_round (x / ulp x)) * ulp x
        in if 2 ^ 1024 \<le> y then PInf
           else if y \<le> - (2 ^ 1024) then NInf
           else Fin y)"

text \<open>
  \<^verbatim>\<open>float(n)\<close> of an integer, also where an integer meets a float in \<^verbatim>\<open>*\<close> or \<^verbatim>\<open>/\<close>:
  rounded to the nearest double, \<^verbatim>\<open>OverflowError\<close> when that is out of range.
\<close>

definition float_of_int :: "int \<Rightarrow> py_error + pyfloat" where
  "float_of_int n =
     (case fl (of_int n) of Fin x \<Rightarrow> Inr (Fin x) | _ \<Rightarrow> Inl OverflowError)"

text \<open>
  \<^verbatim>\<open>a / b\<close> of two integers: the quotient rounded once to the nearest double,
  \<^verbatim>\<open>OverflowError\<close> when that is out of range.
\<close>

definition int_truediv :: "int \<Rightarrow> int \<Rightarrow> py_error + pyfloat" where
  "int_truediv a b =
     (if b = 0 then Inl ZeroDivisionError
      else (case fl (of_int a / of_int b) of
              Fin x \<Rightarrow> Inr (Fin x)
            | _ \<Rightarrow> Inl OverflowError))"

definition f_sgn :: "pyfloat \<Rightarrow> int" where
  "f_sgn a =
     (case a of
        Fin x \<Rightarrow> (if x = 0 then 0 else if 0 < x then 1 else - 1)
      | PInf \<Rightarrow> 1
      | NInf \<Rightarrow> - 1
      | NaN \<Rightarrow> 0)"

definition inf_of_sgn :: "int \<Rightarrow> pyfloat" where
  "inf_of_sgn s = (if s = 0 then NaN else if 0 < s then PInf else NInf)"

text \<open>\<^verbatim>\<open>a * b\<close>, \<^verbatim>\<open>a + b\<close> and \<^verbatim>\<open>a / b\<close> of two floats. A float operation raises only on division by zero.\<close>

fun fmul :: "pyfloat \<Rightarrow> pyfloat \<Rightarrow> pyfloat" where
  "fmul (Fin x) (Fin y) = fl (x * y)"
| "fmul NaN b = NaN"
| "fmul a NaN = NaN"
| "fmul a b = inf_of_sgn (f_sgn a * f_sgn b)"

fun fadd :: "pyfloat \<Rightarrow> pyfloat \<Rightarrow> pyfloat" where
  "fadd (Fin x) (Fin y) = fl (x + y)"
| "fadd NaN b = NaN"
| "fadd a NaN = NaN"
| "fadd PInf NInf = NaN"
| "fadd NInf PInf = NaN"
| "fadd PInf b = PInf"
| "fadd NInf b = NInf"
| "fadd a b = b"

fun fdiv_nonzero :: "pyfloat \<Rightarrow> pyfloat \<Rightarrow> pyfloat" where
  "fdiv_nonzero (Fin x) (Fin y) = fl (x / y)"
| "fdiv_nonzero NaN b = NaN"
| "fdiv_nonzero a NaN = NaN"
| "fdiv_nonzero (Fin x) b = Fin 0"
| "fdiv_nonzero a (Fin y) = inf_of_sgn (f_sgn a * f_sgn (Fin y))"
| "fdiv_nonzero a b = NaN"

definition fdiv :: "pyfloat \<Rightarrow> pyfloat \<Rightarrow> py_error + pyfloat" where
  "fdiv a b = (if b = Fin 0 then Inl ZeroDivisionError else Inr (fdiv_nonzero a b))"

text \<open>\<^verbatim>\<open>a < b\<close> of two floats: false when either is NaN.\<close>

fun f_lt :: "pyfloat \<Rightarrow> pyfloat \<Rightarrow> bool" where
  "f_lt (Fin x) (Fin y) = (x < y)"
| "f_lt (Fin x) PInf = True"
| "f_lt NInf (Fin y) = True"
| "f_lt NInf PInf = True"
| "f_lt a b = False"

text \<open>\<^verbatim>\<open>max(a, b)\<close> of two floats: \<open>b\<close> when \<^verbatim>\<open>b > a\<close>, otherwise \<open>a\<close> (also when \<open>b\<close> is NaN).\<close>

definition py_max_float :: "pyfloat \<Rightarrow> pyfloat \<Rightarrow> pyfloat" where
  "py_max_float a b = (if f_lt a b then b else a)"

text \<open>
  \<^verbatim>\<open>int(x)\<close>, \<^verbatim>\<open>round(x)\<close> and \<^verbatim>\<open>math.floor(x)\<close> of a float: \<^verbatim>\<open>ValueError\<close> for NaN,
  \<^verbatim>\<open>OverflowError\<close> for an infinity.
\<close>

definition py_int_float :: "pyfloat \<Rightarrow> py_error + int" where
  "py_int_float a =
     (case a of Fin x \<Rightarrow> Inr (py_int x) | NaN \<Rightarrow> Inl ValueError | _ \<Rightarrow> Inl OverflowError)"

definition py_round_float :: "pyfloat \<Rightarrow> py_error + int" where
  "py_round_float a =
     (case a of Fin x \<Rightarrow> Inr (py_round x) | NaN \<Rightarrow> Inl ValueError | _ \<Rightarrow> Inl OverflowError)"

definition py_floor_float :: "pyfloat \<Rightarrow> py_error + int" where
  "py_floor_float a =
     (case a of Fin x \<Rightarrow> Inr \<lfloor>x\<rfloor> | NaN \<Rightarrow> Inl ValueError | _ \<Rightarrow> Inl OverflowError)"

subsection \<open>Unit converter (source lines 75 to 85)\<close>

text \<open>
  The literals \<^verbatim>\<open>1.0\<close>, \<^verbatim>\<open>3.0\<close>, \<^verbatim>\<open>4.0\<close>, \<^verbatim>\<open>7.0\<close> are the doubles of these values, and the
  integer \<^verbatim>\<open>5\<close> added to a float is converted to \<^verbatim>\<open>5.0\<close>.
\<close>

definition pixels_to_col_width :: "int \<Rightarrow> py_error + pyfloat" where
  "pixels_to_col_width pixels =
     and_then (float_of_int (pixels - 5)) (\<lambda>x.
     and_then (fdiv x (Fin 7)) (\<lambda>q.
       Inr (py_max_float (Fin 1) q)))"

definition col_width_to_pixels :: "pyfloat \<Rightarrow> py_error + int" where
  "col_width_to_pixels width = py_int_float (fadd (fmul (Fin 7) width) (Fin 5))"

definition pixels_to_row_points :: "int \<Rightarrow> py_error + pyfloat" where
  "pixels_to_row_points pixels =
     and_then (fdiv (Fin 3) (Fin 4)) (\<lambda>c.
     and_then (float_of_int pixels) (\<lambda>x.
       Inr (py_max_float (Fin 1) (fmul c x))))"

text \<open>
  The conversion as the specification words it, \<open>round(7.0 \<times> width + 5)\<close>, the nearest
  integer. Not taken from the source; it is what the source is compared with.
\<close>

definition spec_col_width_to_pixels :: "rat \<Rightarrow> int" where
  "spec_col_width_to_pixels width = round (7 * width + 5)"

subsection \<open>Characters and strings\<close>

text \<open>\<^verbatim>\<open>\d\<close> on code points 0..255: the ASCII digits.\<close>

definition is_digit :: "char \<Rightarrow> bool" where
  "is_digit c = (48 \<le> (of_char c :: nat) \<and> (of_char c :: nat) \<le> 57)"

definition digit_val :: "char \<Rightarrow> int" where
  "digit_val c = int (of_char c) - 48"

text \<open>
  \<^verbatim>\<open>int(s)\<close> on a string of decimal digits; \<open>None\<close> stands for \<^verbatim>\<open>ValueError\<close>. The source
  only passes it a regex group of eight digits (Python's \<^verbatim>\<open>int\<close> also reads signs, blanks
  and underscores, which cannot reach it here).
\<close>

definition py_int_str :: "string \<Rightarrow> int option" where
  "py_int_str s =
     (if s \<noteq> [] \<and> list_all is_digit s
      then Some (foldl (\<lambda>a c. 10 * a + digit_val c) 0 s) else None)"

text \<open>\<^verbatim>\<open>str.lower()\<close> on code points 0..255: A..Z and the Latin-1 capitals move up by 32.\<close>

definition py_lower_char :: "char \<Rightarrow> char" where
  "py_lower_char c =
     (let n = (of_char c :: nat)
      in if (65 \<le> n \<and> n \<le> 90) \<or> (192 \<le> n \<and> n \<le> 222 \<and> n \<noteq> 215)
         then char_of (n + 32) else c)"

definition py_lower :: "string \<Rightarrow> string" where
  "py_lower s = map py_lower_char s"

text \<open>\<^verbatim>\<open>s.endswith(suffix)\<close>, and with a tuple of suffixes.\<close>

definition py_endswith :: "string \<Rightarrow> string \<Rightarrow> bool" where
  "py_endswith s suf = (length suf \<le> length s \<and> drop (length s - length suf) s = suf)"

definition py_endswith_any :: "string \<Rightarrow> string list \<Rightarrow> bool" where
  "py_endswith_any s sufs = list_ex (py_endswith s) sufs"

text \<open>\<^verbatim>\<open>str.strip()\<close>: white space on code points 0..255.\<close>

definition py_isspace :: "char \<Rightarrow> bool" where
  "py_isspace c =
     (let n = (of_char c :: nat)
      in (9 \<le> n \<and> n \<le> 13) \<or> (28 \<le> n \<and> n \<le> 32) \<or> n = 133 \<or> n = 160)"

definition py_strip :: "string \<Rightarrow> string" where
  "py_strip s = rev (dropWhile py_isspace (rev (dropWhile py_isspace s)))"

text \<open>\<^verbatim>\<open>f"{n:02d}"\<close>: decimal, sign-aware zero padding to width 2.\<close>

fun digits_of_nat :: "nat \<Rightarrow> string" where
  "digits_of_nat n =
     (if n < 10 then [''0123456789'' ! n]
      else digits_of_nat (n div 10) @ [''0123456789'' ! (n mod 10)])"

declare digits_of_nat.simps [simp del]

definition zero_pad :: "nat \<Rightarrow> string \<Rightarrow> string" where
  "zero_pad width s = replicate (width - length s) (CHR ''0'') @ s"

definition fmt_02d :: "int \<Rightarrow> string" where
  "fmt_02d n =
     (if n < 0 then CHR ''-'' # zero_pad 1 (digits_of_nat (nat (- n)))
      else zero_pad 2 (digits_of_nat (nat n)))"

text \<open>\<^verbatim>\<open>os.path.join(d, name)\<close> for a name without a slash, as \<^verbatim>\<open>os.listdir\<close> gives.\<close>

definition path_join :: "string \<Rightarrow> string \<Rightarrow> string" where
  "path_join d name =
     (if d = [] \<or> last d = CHR ''/'' then d @ name else d @ ''/'' @ name)"

text \<open>\<^verbatim>\<open>os.path.dirname(p)\<close> (posixpath).\<close>

definition path_dirname :: "string \<Rightarrow> string" where
  "path_dirname p =
     (let hd0 = take (length p - length (takeWhile (\<lambda>c. c \<noteq> CHR ''/'') (rev p))) p
      in if hd0 \<noteq> [] \<and> hd0 \<noteq> replicate (length hd0) (CHR ''/'')
         then rev (dropWhile (\<lambda>c. c = CHR ''/'') (rev hd0)) else hd0)"

subsection \<open>The collaborators: operating system, Pillow, xlsxwriter\<close>

record env =
  xlsxwriter_available :: bool
  pil_available :: bool
  listdir :: "string \<Rightarrow> py_error + string list"
  image_open :: "string \<Rightarrow> (int \<times> int) option"
  resize_save_ok :: "string \<Rightarrow> string \<Rightarrow> bool"
  insert_image_ok :: "string \<Rightarrow> bool"
  makedirs_error :: "string \<Rightarrow> py_error option"
  mkdtemp :: string
  mkdtemp_error :: "py_error option"
  workbook_close_error :: "string \<Rightarrow> py_error option"

text \<open>
  \<open>listdir\<close> is \<^verbatim>\<open>os.listdir\<close> (\<open>Inl\<close> the exception raised); \<open>image_open p\<close> is the width
  and height \<^verbatim>\<open>Image.open(p)\<close> reports, \<open>None\<close> when it raises; \<open>resize_save_ok src dst\<close>
  says that \<^verbatim>\<open>im.resize\<close> and \<^verbatim>\<open>im.save\<close> of \<^verbatim>\<open>physical_resize_image\<close> both return;
  \<open>insert_image_ok p\<close> says that \<^verbatim>\<open>ws.insert_image\<close> returns for the file \<open>p\<close>.
  \<open>makedirs_error d\<close> is the exception \<^verbatim>\<open>os.makedirs(d, exist_ok=True)\<close> raises, \<open>None\<close> when
  it returns; \<open>mkdtemp\<close> is the directory \<^verbatim>\<open>tempfile.mkdtemp\<close> creates and \<open>mkdtemp_error\<close>
  the exception it raises instead, if any; \<open>workbook_close_error p\<close> is the exception
  \<^verbatim>\<open>wb.close()\<close> raises when it writes the file \<open>p\<close>, \<open>None\<close> when it returns. The calls that
  only build the workbook in memory (\<^verbatim>\<open>Workbook\<close>, \<^verbatim>\<open>add_worksheet\<close>, \<^verbatim>\<open>add_format\<close>,
  \<^verbatim>\<open>set_column\<close>, \<^verbatim>\<open>set_row\<close>, \<^verbatim>\<open>write\<close>, \<^verbatim>\<open>freeze_panes\<close>) and \<^verbatim>\<open>print\<close> return.
\<close>

subsection \<open>Listing the images (source lines 39 to 49)\<close>

definition list_images_sorted :: "env \<Rightarrow> string \<Rightarrow> py_error + string list" where
  "list_images_sorted e images_dir =
     (case listdir e images_dir of
        Inl FileNotFoundError \<Rightarrow> Inr []
      | Inl err \<Rightarrow> Inl err
      | Inr files \<Rightarrow>
          Inr (filter (\<lambda>name. py_endswith_any (py_lower name) [''.jpg'', ''.jpeg'', ''.png''])
                 (sort files)))"

subsection \<open>Frame-code parser (source lines 51 to 64)\<close>

text \<open>
  \<^verbatim>\<open>f(\d{8})\.(?:jpe?g|png)\<close> with \<^verbatim>\<open>re.IGNORECASE\<close> against the whole of \<open>s\<close>; the result is
  group 1.
\<close>

definition strict_core :: "string \<Rightarrow> string option" where
  "strict_core s =
     (case s of
        [] \<Rightarrow> None
      | c # rest \<Rightarrow>
          if py_lower_char c = CHR ''f'' \<and> 9 \<le> length rest
             \<and> list_all is_digit (take 8 rest) \<and> rest ! 8 = CHR ''.''
             \<and> py_lower (drop 9 rest) \<in> set [''jpg'', ''jpeg'', ''png'']
          then Some (take 8 rest) else None)"

text \<open>
  \<^verbatim>\<open>re.match(r"^f(\d{8})\.(?:jpe?g|png)$", name, re.IGNORECASE)\<close>: \<^verbatim>\<open>$\<close> holds at the end
  of the string and also just before a newline that ends it.
\<close>

definition match_strict :: "string \<Rightarrow> string option" where
  "match_strict name =
     (case strict_core name of
        Some g \<Rightarrow> Some g
      | None \<Rightarrow>
          if name \<noteq> [] \<and> last name = CHR 0x0A then strict_core (butlast name) else None)"

text \<open>
  \<^verbatim>\<open>re.search(r"(\d{8})", name)\<close>: the leftmost position where eight digits follow each
  other; the result is group 1.
\<close>

fun search_d8 :: "string \<Rightarrow> string option" where
  "search_d8 [] = None"
| "search_d8 (c # cs) =
     (if 8 \<le> length (c # cs) \<and> list_all is_digit (take 8 (c # cs))
      then Some (take 8 (c # cs)) else search_d8 cs)"

declare search_d8.simps(2) [simp del]

definition parse_frame_from_filename :: "string \<Rightarrow> int option" where
  "parse_frame_from_filename name =
     (case match_strict name of
        Some g \<Rightarrow> py_int_str g
      | None \<Rightarrow> (case search_d8 name of Some g \<Rightarrow> py_int_str g | None \<Rightarrow> None))"

text \<open>
  The parser as the specification words it. Not taken from the source; it is what the
  source is compared with. \<open>digit_runs\<close> lists the maximal runs of digits from left to
  right; \<open>strict_form\<close> is "the letter f, eight digits, and .jpg, .jpeg or .png", letters
  in either case; \<open>window8 name k\<close> says that eight digits follow each other from
  position \<open>k\<close> of the name (inside a run that may be longer).
\<close>

fun digit_runs_from :: "string \<Rightarrow> string \<Rightarrow> string list" where
  "digit_runs_from cur [] = (if cur = [] then [] else [rev cur])"
| "digit_runs_from cur (c # cs) =
     (if is_digit c then digit_runs_from (c # cur) cs
      else if cur = [] then digit_runs_from [] cs
      else rev cur # digit_runs_from [] cs)"

definition digit_runs :: "string \<Rightarrow> string list" where
  "digit_runs name = digit_runs_from [] name"

definition strict_form :: "string \<Rightarrow> bool" where
  "strict_form name =
     (case name of
        [] \<Rightarrow> False
      | c # rest \<Rightarrow>
          (c = CHR ''f'' \<or> c = CHR ''F'') \<and> 8 \<le> length rest \<and> list_all is_digit (take 8 rest)
          \<and> py_lower (drop 8 rest) \<in> set [''.jpg'', ''.jpeg'', ''.png''])"

definition decimal :: "string \<Rightarrow> int" where
  "decimal ds = foldl (\<lambda>a c. 10 * a + digit_val c) 0 ds"

definition spec_parse_frame :: "string \<Rightarrow> int option" where
  "spec_parse_frame name =
     (if strict_form name then Some (decimal (take 8 (tl name)))
      else (case filter (\<lambda>r. length r = 8) (digit_runs name) of
              [] \<Rightarrow> None
            | r # _ \<Rightarrow> Some (decimal r)))"

definition window8 :: "string \<Rightarrow> nat \<Rightarrow> bool" where
  "window8 name k = (k + 8 \<le> length name \<and> list_all is_digit (take 8 (drop k name)))"

subsection \<open>Timecode converter (source lines 66 to 73 and 206 to 209)\<close>

text \<open>
  \<^verbatim>\<open>not seconds\<close> holds of a float exactly when it is zero; NaN passes both tests of line
  67 and reaches \<^verbatim>\<open>math.floor\<close>.
\<close>

definition seconds_to_hhmmss_floor :: "pyfloat \<Rightarrow> py_error + string" where
  "seconds_to_hhmmss_floor seconds =
     (if seconds = Fin 0 \<or> f_lt seconds (Fin 0) then Inr ''00:00:00''
      else
        and_then (py_floor_float seconds) (\<lambda>s.
          let h = s div 3600;
              m = (s mod 3600) div 60;
              r = s mod 60
          in Inr (fmt_02d h @ '':'' @ fmt_02d m @ '':'' @ fmt_02d r)))"

text \<open>
  Lines 206 to 209 of \<^verbatim>\<open>main\<close>: the timecode text of one row. \<^verbatim>\<open>frame / fps\<close> divides an
  integer by a float: the integer is converted, then the floats are divided.
\<close>

definition timecode :: "int option \<Rightarrow> pyfloat \<Rightarrow> py_error + string" where
  "timecode frame fps =
     (case frame of
        None \<Rightarrow> Inr []
      | Some f \<Rightarrow>
          if f_lt (Fin 0) fps
          then and_then (float_of_int f) (\<lambda>x.
               and_then (fdiv x fps) seconds_to_hhmmss_floor)
          else Inr [])"

text \<open>
  The timecode as the specification words it: empty when the frame index is absent or
  the rate is at most 0, otherwise the floor of the quotient frame / rate, split into
  hours, minutes and seconds. Not taken from the source; it is what the source is
  compared with.
\<close>

definition spec_timecode :: "int option \<Rightarrow> rat \<Rightarrow> string" where
  "spec_timecode frame rate =
     (case frame of
        None \<Rightarrow> []
      | Some f \<Rightarrow>
          if rate \<le> 0 then []
          else
            let s = \<lfloor>of_int f / rate\<rfloor>
            in fmt_02d (s div 3600) @ '':'' @ fmt_02d (s mod 3600 div 60) @ '':''
               @ fmt_02d (s mod 60))"

subsection \<open>Resize strategy (source lines 87 to 108)\<close>

text \<open>
  Without Pillow the name \<^verbatim>\<open>Image\<close> is unbound, and \<^verbatim>\<open>except Exception\<close> turns the
  \<^verbatim>\<open>NameError\<close> into \<^verbatim>\<open>(None, None)\<close> as well.
\<close>

definition get_image_size :: "env \<Rightarrow> string \<Rightarrow> int option \<times> int option" where
  "get_image_size e path =
     (if pil_available e
      then (case image_open e path of
              None \<Rightarrow> (None, None)
            | Some (w, h) \<Rightarrow> (Some w, Some h))
      else (None, None))"

text \<open>
  The expression \<^verbatim>\<open>int(round(v * scale))\<close> of lines 97, 98, 162, 200 and 201: the integer
  \<open>v\<close> is converted to a float, the product is a double, \<^verbatim>\<open>round\<close> yields an integer.
\<close>

definition round_scaled :: "int \<Rightarrow> pyfloat \<Rightarrow> py_error + int" where
  "round_scaled v scale =
     and_then (float_of_int v) (\<lambda>x. py_round_float (fmul x scale))"

definition physical_resize_image ::
  "env \<Rightarrow> string \<Rightarrow> string \<Rightarrow> pyfloat \<Rightarrow> py_error + (int \<times> int)" where
  "physical_resize_image e src dst scale =
     (case image_open e src of
        None \<Rightarrow> Inl ImageError
      | Some (w, h) \<Rightarrow>
          and_then (round_scaled w scale) (\<lambda>rw.
          and_then (round_scaled h scale) (\<lambda>rh.
            let nw = max 1 rw;
                nh = max 1 rh
            in if resize_save_ok e src dst then Inr (nw, nh) else Inl ImageError)))"

text \<open>\<^verbatim>\<open>v or 0\<close> for \<^verbatim>\<open>v\<close> an integer or \<^verbatim>\<open>None\<close>.\<close>

definition py_or0 :: "int option \<Rightarrow> int" where
  "py_or0 v = (case v of None \<Rightarrow> 0 | Some n \<Rightarrow> n)"

subsection \<open>Layout engine (\<^verbatim>\<open>main\<close>, source lines 110 to 251)\<close>

datatype resize_mode = Physical | ScaleOnly

text \<open>
  The command line as \<^verbatim>\<open>argparse\<close> has parsed it (a command line it refuses ends the
  script with code 2 before line 124). \<open>arg_images_dir\<close> and \<open>arg_out\<close> are the paths
  after \<^verbatim>\<open>os.path.abspath\<close>; \<open>arg_fps\<close> and \<open>arg_scale\<close> are what \<^verbatim>\<open>float\<close> reads, infinities
  and NaN included.
\<close>

record args =
  arg_images_dir :: string
  arg_out :: string
  arg_fps :: pyfloat
  arg_scale :: pyfloat
  arg_video_name :: string
  arg_resize :: resize_mode
  arg_center :: string
  arg_pad_x :: int
  arg_pad_y :: int

text \<open>Line 128: the centering flag.\<close>

definition do_center_of :: "string \<Rightarrow> bool" where
  "do_center_of center =
     (py_strip center \<notin> set [''0'', ''false'', ''False'', ''no'', ''No''])"

text \<open>
  Lines 126 and 127: \<^verbatim>\<open>float(args.fps or 0.0)\<close> and \<^verbatim>\<open>float(args.scale or 0.25)\<close>. A float
  is false exactly when it is zero.
\<close>

definition fps_of :: "pyfloat \<Rightarrow> pyfloat" where
  "fps_of f = (if f = Fin 0 then Fin 0 else f)"

definition scale_of :: "pyfloat \<Rightarrow> pyfloat" where
  "scale_of s = (if s = Fin 0 then Fin (1 / 4) else s)"

text \<open>
  Lines 149 to 162: one entry \<^verbatim>\<open>(path, w, h)\<close> of \<^verbatim>\<open>processed\<close>. In physical mode every
  exception is caught (line 156); in scale-only mode the rounding of line 162 is not
  guarded.
\<close>

type_synonym processed_image = "string \<times> int \<times> int"

definition preprocess_image ::
  "env \<Rightarrow> bool \<Rightarrow> string \<Rightarrow> string \<Rightarrow> pyfloat \<Rightarrow> string \<Rightarrow> py_error + processed_image" where
  "preprocess_image e use_physical images_dir tmpdir scale name =
     (let src = path_join images_dir name
      in if use_physical then
           (let dst = path_join tmpdir name
            in case physical_resize_image e src dst scale of
                 Inr (nw, nh) \<Rightarrow> Inr (dst, nw, nh)
               | Inl err \<Rightarrow>
                   (case get_image_size e src of (w, h) \<Rightarrow> Inr (src, py_or0 w, py_or0 h)))
         else
           (case get_image_size e src of
              (w, h) \<Rightarrow>
                and_then (round_scaled (py_or0 w) scale) (\<lambda>sw.
                and_then (round_scaled (py_or0 h) scale) (\<lambda>sh.
                  Inr (src, sw, sh)))))"

definition preprocess ::
  "env \<Rightarrow> bool \<Rightarrow> string \<Rightarrow> string \<Rightarrow> pyfloat \<Rightarrow> string list
     \<Rightarrow> py_error + processed_image list" where
  "preprocess e use_physical images_dir tmpdir scale imgs =
     map_err (preprocess_image e use_physical images_dir tmpdir scale) imgs"

text \<open>Lines 165 and 177: the pixel width of column A.\<close>

definition column_pixels :: "processed_image list \<Rightarrow> int \<Rightarrow> int" where
  "column_pixels processed pad_x =
     (let max_w = py_max_default 0 (map (\<lambda>(p, w, h). w) processed)
      in max_w + 2 * pad_x)"

text \<open>Lines 190 to 203: the width and height a row is laid out for.\<close>

definition layout_size ::
  "env \<Rightarrow> bool \<Rightarrow> pyfloat \<Rightarrow> processed_image \<Rightarrow> py_error + (int \<times> int)" where
  "layout_size e use_physical scale p =
     (case p of (img_path, w, h) \<Rightarrow>
        if use_physical then Inr (w, h)
        else (case get_image_size e img_path of
                (Some ow, Some oh) \<Rightarrow>
                  if ow \<noteq> 0 \<and> oh \<noteq> 0 \<and> 0 < ow \<and> 0 < oh
                  then and_then (round_scaled ow scale) (\<lambda>sw.
                       and_then (round_scaled oh scale) (\<lambda>sh. Inr (sw, sh)))
                  else Inr (w, h)
              | _ \<Rightarrow> Inr (w, h)))"

text \<open>
  The expression \<^verbatim>\<open>max(0, int((a - b) / 2))\<close> of lines 224 and 225: a true division of
  two integers, which yields a double, then a truncation.
\<close>

definition half_gap :: "int \<Rightarrow> int \<Rightarrow> py_error + int" where
  "half_gap a b =
     and_then (int_truediv (a - b) 2) (\<lambda>q.
     and_then (py_int_float q) (\<lambda>n. Inr (max 0 n)))"

text \<open>
  Lines 216 to 227: the offsets put into \<^verbatim>\<open>insert_opts\<close>; \<open>None\<close> is a key left out of the
  dictionary.
\<close>

definition center_offsets ::
  "bool \<Rightarrow> int \<Rightarrow> int \<Rightarrow> int \<Rightarrow> int \<Rightarrow> py_error + (int option \<times> int option)" where
  "center_offsets do_center col_pixels row_pixels w h =
     (if do_center
      then and_then (half_gap col_pixels w) (\<lambda>x_off.
           and_then (half_gap row_pixels h) (\<lambda>y_off.
             Inr (Some x_off, Some y_off)))
      else Inr (None, None))"

text \<open>
  The offsets as the specification words them: half the gap, floored to an integer
  pixel, and not below 0. Not taken from the source; it is what the source is compared
  with.
\<close>

definition spec_offset :: "int \<Rightarrow> int \<Rightarrow> int" where
  "spec_offset outer inner = max 0 \<lfloor>of_int (outer - inner) / (2::rat)\<rfloor>"

text \<open>
  The offset xlsxwriter places the image at: \<^verbatim>\<open>insert_image\<close> reads
  \<^verbatim>\<open>options.get("x_offset", 0)\<close>, so a key left out is 0.
\<close>

definition xlsx_offset :: "int option \<Rightarrow> int" where
  "xlsx_offset v = (case v of None \<Rightarrow> 0 | Some n \<Rightarrow> n)"

record insert_opts =
  x_offset :: "int option"
  y_offset :: "int option"
  x_scale :: "pyfloat option"
  y_scale :: "pyfloat option"

text \<open>
  Column A of a row: the image inserted from a path with the row's \<open>insert_options\<close>, or,
  when \<^verbatim>\<open>insert_image\<close> raises, the original path written as text.
\<close>

datatype cell_image = Inserted string | PathText string

record sheet_row =
  row_number :: nat
  row_points :: pyfloat
  row_centered :: bool
  layout_w :: int
  layout_h :: int
  insert_options :: insert_opts
  cell_a :: cell_image
  cell_b :: string

text \<open>
  Lines 188 to 244: one pass of the second loop, in the order of the source: the layout
  size, the timecode, the row height, the offsets, the insertion. Only the insertion is
  guarded by \<^verbatim>\<open>try\<close>.
\<close>

definition write_row ::
  "env \<Rightarrow> bool \<Rightarrow> bool \<Rightarrow> pyfloat \<Rightarrow> pyfloat \<Rightarrow> int \<Rightarrow> int \<Rightarrow> string \<Rightarrow> nat \<Rightarrow> string
     \<Rightarrow> processed_image \<Rightarrow> py_error + sheet_row" where
  "write_row e use_physical do_center scale fps colA_pixels pad_y images_dir row name p =
     (let orig_path = path_join images_dir name;
          img_path = fst p
      in and_then (layout_size e use_physical scale p) (\<lambda>(w, h).
         and_then (timecode (parse_frame_from_filename name) fps) (\<lambda>tc.
           let row_pixels = h + 2 * pad_y
           in and_then (pixels_to_row_points row_pixels) (\<lambda>points.
              and_then (center_offsets do_center colA_pixels row_pixels w h) (\<lambda>(x_off, y_off).
                let opts = \<lparr>x_offset = x_off, y_offset = y_off,
                            x_scale = (if use_physical then None else Some scale),
                            y_scale = (if use_physical then None else Some scale)\<rparr>
                in Inr \<lparr>row_number = row,
                        row_points = points,
                        row_centered = do_center,
                        layout_w = w,
                        layout_h = h,
                        insert_options = opts,
                        cell_a = (if insert_image_ok e img_path then Inserted img_path
                                  else PathText orig_path),
                        cell_b = tc\<rparr>)))))"

record workbook =
  col_a_width :: pyfloat
  col_b_width :: int
  header_cells :: "string \<times> string"
  rows :: "sheet_row list"

text \<open>
  Lines 146 to 244: the workbook built for the images \<open>imgs\<close>, before it is closed. The
  source reads \<^verbatim>\<open>processed[i]\<close> for the \<open>i\<close>-th name; \<open>processed\<close> has one entry per name,
  so the two lists are walked together. The first exception ends the run of the loops.
\<close>

definition export_workbook :: "env \<Rightarrow> args \<Rightarrow> string list \<Rightarrow> py_error + workbook" where
  "export_workbook e a imgs =
     (let images_dir = arg_images_dir a;
          fps = fps_of (arg_fps a);
          scale = scale_of (arg_scale a);
          do_center = do_center_of (arg_center a);
          use_physical = (arg_resize a = Physical \<and> pil_available e)
      in and_then (preprocess e use_physical images_dir (mkdtemp e) scale imgs) (\<lambda>processed.
           let colA_pixels = column_pixels processed (arg_pad_x a)
           in and_then (pixels_to_col_width colA_pixels) (\<lambda>colA_width.
              and_then
                (map_err (\<lambda>(i, name, p).
                            write_row e use_physical do_center scale fps colA_pixels
                              (arg_pad_y a) images_dir (i + 1) name p)
                   (zip [0..<length imgs] (zip imgs processed))) (\<lambda>rs.
                Inr \<lparr>col_a_width = colA_width,
                      col_b_width = 16,
                      header_cells = (''Image'', ''Timecode''),
                      rows = rs\<rparr>))))"

datatype message = MissingXlsxwriter | NoImages | PillowFallback | Ok string

datatype effect =
    Stderr message
  | Stdout message
  | Makedirs string
  | Mkdtemp string
  | SaveWorkbook string workbook
  | Rmtree string

datatype status = Returned int | SysExit int | Uncaught py_error

text \<open>
  \<^verbatim>\<open>main\<close>, lines 124 to 251: how it ends and what it has done by then. An exception
  raised before line 146 leaves at once; one raised inside the \<^verbatim>\<open>try\<close> block, by a loop or
  by \<^verbatim>\<open>wb.close()\<close>, leaves after the \<^verbatim>\<open>finally\<close> clause has removed the temporary
  directory, and no workbook has been saved.
\<close>

definition main :: "env \<Rightarrow> args \<Rightarrow> status \<times> effect list" where
  "main e a =
     (case list_images_sorted e (arg_images_dir a) of
        Inl err \<Rightarrow> (Uncaught err, [])
      | Inr imgs \<Rightarrow>
          if imgs = [] then (SysExit 2, [Stderr NoImages])
          else
            let out_path = arg_out a;
                use_physical = (arg_resize a = Physical \<and> pil_available e);
                tmpdir = mkdtemp e;
                fallback = (if arg_resize a = Physical \<and> \<not> pil_available e
                            then [Stderr PillowFallback] else []);
                cleanup = (if use_physical then [Rmtree tmpdir] else [])
            in case makedirs_error e (path_dirname out_path) of
                 Some err \<Rightarrow> (Uncaught err, [])
               | None \<Rightarrow>
                   (case (if use_physical then mkdtemp_error e else None) of
                      Some err \<Rightarrow>
                        (Uncaught err, [Makedirs (path_dirname out_path)] @ fallback)
                    | None \<Rightarrow>
                        let before = [Makedirs (path_dirname out_path)] @ fallback
                                     @ (if use_physical then [Mkdtemp tmpdir] else [])
                        in case export_workbook e a imgs of
                             Inl err \<Rightarrow> (Uncaught err, before @ cleanup)
                           | Inr wb \<Rightarrow>
                               (case workbook_close_error e out_path of
                                  Some err \<Rightarrow> (Uncaught err, before @ cleanup)
                                | None \<Rightarrow>
                                    (Returned 0,
                                     before
                                     @ [SaveWorkbook out_path wb, Stdout (Ok out_path)]
                                     @ cleanup))))"



text \<open>
  The record of an image whose resize has failed, as the specification words it: the
  original file with its original dimensions, that is a width and a height of at least
  one pixel, those the decoder reports when it can read the file. Not taken from the
  source; it is what the source is compared with.
\<close>

definition spec_degraded_record :: "env \<Rightarrow> string \<Rightarrow> processed_image \<Rightarrow> bool" where
  "spec_degraded_record e src p =
     (case p of
        (path, w, h) \<Rightarrow>
          path = src \<and> 0 < w \<and> 0 < h
          \<and> (case image_open e src of Some d \<Rightarrow> d = (w, h) | None \<Rightarrow> True))"

subsection \<open>Sample runs\<close>

text \<open>
  A directory with three images and a file that is not an image. The header of
  \<open>f00000750.png\<close> can be read, but the file can neither be resized nor inserted. In
  \<open>corrupt_env\<close> that file cannot be opened at all. The theorems below are instantiated
  with them.
\<close>

definition example_env :: env where
  "example_env =
     \<lparr>xlsxwriter_available = True,
      pil_available = True,
      listdir = (\<lambda>d. if d = ''/shots''
                      then Inr [''f00000750.png'', ''notes.txt'', ''f00090000.png'',
                                ''f00000025.jpg'']
                      else Inl FileNotFoundError),
      image_open = (\<lambda>p. if p = ''/shots/f00000025.jpg'' then Some (640, 480)
                         else if p = ''/shots/f00000750.png'' then Some (1920, 1080)
                         else if p = ''/shots/f00090000.png'' then Some (600, 450)
                         else None),
      resize_save_ok = (\<lambda>src dst. src \<noteq> ''/shots/f00000750.png''),
      insert_image_ok = (\<lambda>p. p \<noteq> ''/shots/f00000750.png''),
      makedirs_error = (\<lambda>d. None),
      mkdtemp = ''/tmp/xlsx_gallery_0'',
      mkdtemp_error = None,
      workbook_close_error = (\<lambda>p. None)\<rparr>"

definition corrupt_env :: env where
  "corrupt_env =
     example_env
       \<lparr>image_open := (\<lambda>p. if p = ''/shots/f00000750.png'' then None
                            else image_open example_env p)\<rparr>"

definition example_args :: "resize_mode \<Rightarrow> args" where
  "example_args mode =
     \<lparr>arg_images_dir = ''/shots'',
      arg_out = ''/out/gallery.xlsx'',
      arg_fps = Fin 25,
      arg_scale = Fin (1 / 4),
      arg_video_name = ''clip'',
      arg_resize = mode,
      arg_center = ''1'',
      arg_pad_x = 2,
      arg_pad_y = 3\<rparr>"

definition example_imgs :: "string list" where
  "example_imgs = [''f00000025.jpg'', ''f00000750.png'', ''f00090000.png'']"

text \<open>
  The doubles that \<^verbatim>\<open>float\<close> reads from \<^verbatim>\<open>0.15\<close>, from \<^verbatim>\<open>23.976023976023978\<close> (the rate
  24000/1001) and from \<^verbatim>\<open>0.001\<close>, as fractions with a power of two below, and a
  scale-only run at the scale 0.15 without vertical padding.
\<close>

definition double_0_15 :: rat where
  "double_0_15 = 5404319552844595 / 36028797018963968"

definition double_ntsc :: rat where
  "double_ntsc = 6748650790265479 / 281474976710656"

definition double_0_001 :: rat where
  "double_0_001 = 1152921504606847 / 1152921504606846976"

definition scale_only_args :: args where
  "scale_only_args = (example_args ScaleOnly)\<lparr>arg_scale := Fin double_0_15, arg_pad_y := 0\<rparr>"

section \<open>Properties\<close>

subsection \<open>Sequencing\<close>

lemma and_then_Inr [simp]: "and_then (Inr x) f = f x"
  by (simp add: and_then_def)

lemma and_then_Inl [simp]: "and_then (Inl err) f = Inl err"
  by (simp add: and_then_def)

lemma and_then_eq_Inr: "and_then m f = Inr y \<longleftrightarrow> (\<exists>x. m = Inr x \<and> f x = Inr y)"
  by (cases m) simp_all

lemma map_err_Inr:
  "map_err f xs = Inr ys \<Longrightarrow> length ys = length xs \<and> (\<forall>i<length xs. f (xs ! i) = Inr (ys ! i))"
proof (induction xs arbitrary: ys)
  case Nil
  then show ?case by simp
next
  case (Cons x xs)
  from Cons.prems obtain y zs where y: "f x = Inr y" and zs: "map_err f xs = Inr zs"
    and ys: "ys = y # zs"
    by (auto split: sum.splits)
  from Cons.IH [OF zs] have l: "length zs = length xs"
    and n: "\<forall>i<length xs. f (xs ! i) = Inr (zs ! i)" by simp_all
  show ?case
  proof (intro conjI allI impI)
    show "length ys = length (x # xs)" using l ys by simp
  next
    fix i
    assume "i < length (x # xs)"
    then show "f ((x # xs) ! i) = Inr (ys ! i)"
      using y n ys by (cases i) simp_all
  qed
qed

lemma map_err_total:
  "(\<And>x. x \<in> set xs \<Longrightarrow> \<exists>y. f x = Inr y) \<Longrightarrow> \<exists>ys. map_err f xs = Inr ys"
proof (induction xs)
  case Nil
  then show ?case by simp
next
  case (Cons x xs)
  from Cons.prems [of x] obtain y where y: "f x = Inr y" by auto
  from Cons.IH Cons.prems obtain zs where "map_err f xs = Inr zs" by auto
  with y show ?case by simp
qed

subsection \<open>Rounding to a double\<close>

lemma floor_rat_numeral [simp]:
  "\<lfloor>numeral a / numeral b :: rat\<rfloor> = numeral a div numeral b"
  using floor_divide_of_int_eq [of "numeral a" "numeral b", where ?'a = rat] by simp

lemma floor_rat_neg_numeral [simp]:
  "\<lfloor>- (numeral a / numeral b) :: rat\<rfloor> = - numeral a div numeral b"
  using floor_divide_of_int_eq [of "- numeral a" "numeral b", where ?'a = rat] by simp

lemma ceiling_rat_numeral [simp]:
  "\<lceil>numeral a / numeral b :: rat\<rceil> = - (- numeral a div numeral b)"
  using floor_rat_neg_numeral [of a b] by (simp add: ceiling_def)

lemma ceiling_rat_neg_numeral [simp]:
  "\<lceil>- (numeral a / numeral b) :: rat\<rceil> = - (numeral a div numeral b)"
  by (simp add: ceiling_def)

lemma py_round_of_int: "py_round (of_int n) = n"
  by (simp add: py_round_def)

lemma py_round_error: "\<bar>of_int (py_round x) - x\<bar> \<le> 1 / 2"
proof -
  define f where "f = \<lfloor>x\<rfloor>"
  define d where "d = x - of_int f"
  have f1: "of_int f \<le> x" unfolding f_def by (rule of_int_floor_le)
  have f2: "x < of_int f + 1" unfolding f_def by linarith
  have r: "py_round x = (if d < 1 / 2 then f else if 1 / 2 < d then f + 1
      else if even f then f else f + 1)"
    by (simp add: py_round_def Let_def f_def d_def)
  consider "d < 1 / 2" | "1 / 2 < d" | "d = 1 / 2" by linarith
  then show ?thesis
  proof cases
    case 1
    then have "py_round x = f" by (simp add: r)
    then show ?thesis using 1 f1 unfolding d_def by (simp; linarith?)
  next
    case 2
    then have "py_round x = f + 1" by (simp add: r)
    then show ?thesis using 2 f2 unfolding d_def by (simp; linarith?)
  next
    case 3
    then have "py_round x = f \<or> py_round x = f + 1" by (simp add: r)
    then show ?thesis using 3 unfolding d_def by (elim disjE) (simp; linarith?)+
  qed
qed

lemma pow2_mono: "a \<le> b \<Longrightarrow> (2::rat) powi a \<le> 2 powi b"
  by (rule power_int_increasing) simp_all

lemma pow2_strict_mono: "a < b \<Longrightarrow> (2::rat) powi a < 2 powi b"
  by (rule power_int_strict_increasing) simp_all

lemma pow2_pos: "0 < (2::rat) powi a"
  by simp

lemma pow2_add: "(2::rat) powi (a + b) = 2 powi a * 2 powi b"
  by (simp add: power_int_add)

lemma pow2_diff: "(2::rat) powi (a - b) = 2 powi a / 2 powi b"
  by (simp add: power_int_diff)

lemma pow2_nat: "0 \<le> a \<Longrightarrow> (2::rat) powi a = 2 ^ nat a"
  by (simp add: power_int_nonneg_exp)

lemma ilog2_spec:
  assumes "0 < x"
  shows "2 powi (ilog2 x) \<le> x \<and> x < 2 powi (ilog2 x + 1)"
proof -
  obtain n d where qd: "quotient_of x = (n, d)" by (cases "quotient_of x")
  then have d: "0 < d" and x: "x = of_int n / of_int d"
    by (simp_all add: quotient_of_denom_pos quotient_of_div)
  from assms x d have n: "0 < n" by (simp add: zero_less_divide_iff)
  define bn where "bn = bitlen n"
  define bd where "bd = bitlen d"
  have bn1: "1 \<le> bn" and bd1: "1 \<le> bd"
    using n d by (simp_all add: bn_def bd_def bitlen_alt_def)
  from bitlen_bounds [OF n] have "(2::int) ^ nat (bn - 1) \<le> n" "n < 2 ^ nat bn"
    by (simp_all add: bn_def)
  then have nl: "(2::rat) ^ nat (bn - 1) \<le> of_int n" and nu: "(of_int n :: rat) < 2 ^ nat bn"
    by (metis of_int_le_iff of_int_numeral of_int_power, metis of_int_less_iff of_int_numeral of_int_power)
  from bitlen_bounds [OF d] have "(2::int) ^ nat (bd - 1) \<le> d" "d < 2 ^ nat bd"
    by (simp_all add: bd_def)
  then have dl: "(2::rat) ^ nat (bd - 1) \<le> of_int d" and du: "(of_int d :: rat) < 2 ^ nat bd"
    by (metis of_int_le_iff of_int_numeral of_int_power, metis of_int_less_iff of_int_numeral of_int_power)
  have pn: "(2::rat) ^ nat bn = 2 powi bn" "(2::rat) ^ nat (bn - 1) = 2 powi (bn - 1)"
    using bn1 by (simp_all add: pow2_nat)
  have pd: "(2::rat) ^ nat bd = 2 powi bd" "(2::rat) ^ nat (bd - 1) = 2 powi (bd - 1)"
    using bd1 by (simp_all add: pow2_nat)
  have dpos: "(0::rat) < of_int d" using d by simp
  have up: "x < 2 powi (bn - bd + 1)"
  proof -
    have "x * of_int d = of_int n" using x dpos by simp
    also have "\<dots> < 2 powi bn" using nu pn by simp
    also have "\<dots> = 2 powi (bn - bd + 1) * 2 powi (bd - 1)"
      by (simp add: pow2_add [symmetric])
    also have "\<dots> \<le> 2 powi (bn - bd + 1) * of_int d"
      using dl pd by (intro mult_left_mono) simp_all
    finally show ?thesis using dpos by simp
  qed
  have lo: "2 powi (bn - bd - 1) < x"
  proof -
    have "(2::rat) powi (bn - bd - 1) * of_int d < 2 powi (bn - bd - 1) * 2 powi bd"
      using du pd by (intro mult_strict_left_mono) simp_all
    also have "\<dots> = 2 powi (bn - 1)" by (simp add: pow2_add [symmetric])
    also have "\<dots> \<le> of_int n" using nl pn by simp
    also have "\<dots> = x * of_int d" using x dpos by simp
    finally show ?thesis using dpos by simp
  qed
  show ?thesis
  proof (cases "2 powi (bn - bd) \<le> x")
    case True
    then have "ilog2 x = bn - bd" by (simp add: ilog2_def qd bn_def bd_def)
    with True up show ?thesis by simp
  next
    case False
    then have i: "ilog2 x = bn - bd - 1" by (simp add: ilog2_def qd bn_def bd_def)
    from False have "x < 2 powi (bn - bd)" by simp
    with lo show ?thesis unfolding i by simp
  qed
qed

lemma ilog2_unique:
  assumes "2 powi e \<le> x" and "x < 2 powi (e + 1)"
  shows "ilog2 x = e"
proof -
  have "0 < (2::rat) powi e" by simp
  with assms(1) have x: "0 < x" by linarith
  from ilog2_spec [OF x] have s: "2 powi (ilog2 x) \<le> x" "x < 2 powi (ilog2 x + 1)" by simp_all
  have "\<not> ilog2 x < e"
  proof
    assume "ilog2 x < e"
    then have "ilog2 x + 1 \<le> e" by simp
    then have "(2::rat) powi (ilog2 x + 1) \<le> 2 powi e" by (rule pow2_mono)
    with s(2) assms(1) show False by linarith
  qed
  moreover have "\<not> e < ilog2 x"
  proof
    assume "e < ilog2 x"
    then have "e + 1 \<le> ilog2 x" by simp
    then have "(2::rat) powi (e + 1) \<le> 2 powi (ilog2 x)" by (rule pow2_mono)
    with s(1) assms(2) show False by linarith
  qed
  ultimately show ?thesis by linarith
qed

text \<open>Evaluation of \<open>fl\<close> once the binary exponent of the argument is known.\<close>

lemma fl_eval:
  assumes "2 powi e \<le> \<bar>x\<bar>" and "\<bar>x\<bar> < 2 powi (e + 1)"
  shows "fl x =
     (let q = 2 powi (max e (- 1022) - 52);
          y = of_int (py_round (x / q)) * q
      in if 2 ^ 1024 \<le> y then PInf else if y \<le> - (2 ^ 1024) then NInf else Fin y)"
proof -
  have "0 < \<bar>x\<bar>" using assms(1) pow2_pos [of e] by linarith
  then have "x \<noteq> 0" by simp
  moreover have "ilog2 \<bar>x\<bar> = e" using assms by (rule ilog2_unique)
  ultimately show ?thesis by (simp add: fl_def ulp_def Let_def)
qed

lemma fl_exact:
  assumes x: "x = of_int m * 2 powi k" and m: "\<bar>m\<bar> < 2 ^ 53" and k: "- 1074 \<le> k"
    and r: "\<bar>x\<bar> < 2 ^ 1024"
  shows "fl x = Fin x"
proof (cases "x = 0")
  case True
  then show ?thesis by (simp add: fl_def)
next
  case False
  then have ax: "0 < \<bar>x\<bar>" by simp
  define e where "e = ilog2 \<bar>x\<bar>"
  define qe where "qe = max e (- 1022) - 52"
  from ilog2_spec [OF ax] have s: "2 powi e \<le> \<bar>x\<bar>" "\<bar>x\<bar> < 2 powi (e + 1)"
    by (simp_all add: e_def)
  have kq: "qe \<le> k"
  proof (rule ccontr)
    assume "\<not> qe \<le> k"
    then have lt: "k < qe" by simp
    with k have "e - 52 = qe" unfolding qe_def by linarith
    with lt have "k + 53 \<le> e" by linarith
    then have le: "(2::rat) powi (k + 53) \<le> 2 powi e" by (rule pow2_mono)
    have "\<bar>x\<bar> = of_int \<bar>m\<bar> * 2 powi k" unfolding x by (simp add: abs_mult)
    also have "\<dots> < 2 ^ 53 * 2 powi k"
    proof (rule mult_strict_right_mono)
      from m have "of_int \<bar>m\<bar> < (of_int (2 ^ 53) :: rat)" by (simp only: of_int_less_iff)
      then show "(of_int \<bar>m\<bar> :: rat) < 2 ^ 53" by simp
    qed simp
    also have "\<dots> = 2 powi (k + 53)" by (simp add: pow2_add)
    finally show False using s(1) le by linarith
  qed
  define j where "j = nat (k - qe)"
  have kj: "k = qe + int j" using kq by (simp add: j_def)
  have "x / 2 powi qe = of_int m * 2 powi (k - qe)"
    unfolding x by (simp add: pow2_diff)
  also have "\<dots> = of_int (m * 2 ^ j)" by (simp add: kj)
  finally have q: "x / 2 powi qe = of_int (m * 2 ^ j)" .
  have y: "of_int (py_round (x / 2 powi qe)) * 2 powi qe = x"
    unfolding q py_round_of_int unfolding q [symmetric] by simp
  from r have "\<not> 2 ^ 1024 \<le> x" "\<not> x \<le> - (2 ^ 1024)" by (simp_all add: abs_if split: if_splits)
  then show ?thesis
    using False by (simp add: fl_def ulp_def Let_def e_def [symmetric] qe_def [symmetric] y)
qed

lemma fl_error:
  assumes "\<bar>x\<bar> \<le> 2 ^ 1023"
  shows "\<exists>y. fl x = Fin y
     \<and> (abs (y - x) \<le> abs x / 2 ^ 53
          \<or> abs (y - x) \<le> 2 powi (- 1075) \<and> abs x < 2 powi (- 1022))"
proof (cases "x = 0")
  case True
  then show ?thesis by (simp add: fl_def)
next
  case False
  then have ax: "0 < \<bar>x\<bar>" by simp
  define e where "e = ilog2 \<bar>x\<bar>"
  define qe where "qe = max e (- 1022) - 52"
  define y :: rat where "y = of_int (py_round (x / 2 powi qe)) * 2 powi qe"
  from ilog2_spec [OF ax] have s: "2 powi e \<le> \<bar>x\<bar>" "\<bar>x\<bar> < 2 powi (e + 1)"
    by (simp_all add: e_def)
  have qpos: "0 < (2::rat) powi qe" by simp
  have "y - x = (of_int (py_round (x / 2 powi qe)) - x / 2 powi qe) * 2 powi qe"
    unfolding y_def by (simp add: algebra_simps)
  then have "\<bar>y - x\<bar> = \<bar>of_int (py_round (x / 2 powi qe)) - x / 2 powi qe\<bar> * (2::rat) powi qe"
    by (simp only: abs_mult) simp
  also have "\<dots> \<le> (1 / 2) * 2 powi qe"
    by (intro mult_right_mono py_round_error) simp
  also have "\<dots> = 2 powi (qe - 1)" by (simp add: pow2_diff)
  finally have err: "\<bar>y - x\<bar> \<le> 2 powi (qe - 1)" .
  have bound: "abs (y - x) \<le> abs x / 2 ^ 53
      \<or> abs (y - x) \<le> 2 powi (- 1075) \<and> abs x < 2 powi (- 1022)"
  proof (cases "- 1022 \<le> e")
    case True
    then have "qe - 1 = e - 53" by (simp add: qe_def)
    then have "(2::rat) powi (qe - 1) = 2 powi (e - 53)" by (simp only:)
    also have "\<dots> = 2 powi e / 2 powi 53" by (rule pow2_diff)
    also have "\<dots> = 2 powi e / 2 ^ 53" by simp
    also have "\<dots> \<le> \<bar>x\<bar> / 2 ^ 53" using s(1) by (simp add: divide_right_mono)
    finally show ?thesis using err by linarith
  next
    case False
    then have q: "qe - 1 = - 1075" by (simp add: qe_def)
    from False have "e + 1 \<le> - 1022" by simp
    then have "(2::rat) powi (e + 1) \<le> 2 powi (- 1022)" by (rule pow2_mono)
    with s(2) have "\<bar>x\<bar> < 2 powi (- 1022)" by linarith
    with err q show ?thesis by simp
  qed
  have small: "\<bar>y - x\<bar> \<le> 2 ^ 970"
  proof -
    from bound show ?thesis
    proof
      assume "\<bar>y - x\<bar> \<le> \<bar>x\<bar> / 2 ^ 53"
      also have "\<dots> \<le> 2 ^ 1023 / 2 ^ 53" using assms by (simp add: divide_right_mono)
      also have "\<dots> = (2::rat) ^ 970" by simp
      finally show ?thesis .
    next
      assume "abs (y - x) \<le> 2 powi (- 1075) \<and> abs x < 2 powi (- 1022)"
      then have "\<bar>y - x\<bar> \<le> (2::rat) powi (- 1075)" by simp
      also have "\<dots> \<le> 2 powi 970" by (rule pow2_mono) simp
      also have "\<dots> = (2::rat) ^ 970" by simp
      finally show ?thesis .
    qed
  qed
  have "(2::rat) ^ 1023 + 2 ^ 970 < 2 ^ 1024" by simp
  with small assms have "\<not> 2 ^ 1024 \<le> y" "\<not> y \<le> - (2 ^ 1024)" by (simp_all add: abs_if split: if_splits)
  then have "fl x = Fin y"
    using False by (simp add: fl_def ulp_def Let_def e_def [symmetric] qe_def [symmetric] y_def)
  with bound show ?thesis by blast
qed

lemma py_round_cases: "py_round x = \<lfloor>x\<rfloor> \<or> py_round x = \<lfloor>x\<rfloor> + 1"
  by (simp add: py_round_def Let_def)

lemma py_round_ge: "of_int n \<le> x \<Longrightarrow> n \<le> py_round x"
proof -
  assume "of_int n \<le> x"
  then have "n \<le> \<lfloor>x\<rfloor>" by (simp add: le_floor_iff)
  with py_round_cases [of x] show ?thesis by linarith
qed

lemma py_round_le: "x \<le> of_int n \<Longrightarrow> py_round x \<le> n"
proof (cases "x = of_int n")
  case True
  then show ?thesis by (simp add: py_round_of_int)
next
  case False
  assume "x \<le> of_int n"
  with False have "x < of_int n" by simp
  then have "\<lfloor>x\<rfloor> < n" by (simp add: floor_less_iff)
  with py_round_cases [of x] show ?thesis by linarith
qed

text \<open>
  Below \<open>2 ^ 53\<close> every integer is a double, so rounding does not cross an integer: the
  double nearest to \<open>x\<close> lies between the floor and the ceiling of \<open>x\<close>.
\<close>

lemma fl_between:
  assumes "\<bar>x\<bar> < 2 ^ 53"
  shows "\<exists>y. fl x = Fin y \<and> of_int \<lfloor>x\<rfloor> \<le> y \<and> y \<le> of_int \<lceil>x\<rceil>"
proof (cases "x = 0")
  case True
  then show ?thesis by (simp add: fl_def)
next
  case False
  then have ax: "0 < \<bar>x\<bar>" by simp
  define e where "e = ilog2 \<bar>x\<bar>"
  define qe where "qe = max e (- 1022) - 52"
  define y :: rat where "y = of_int (py_round (x / 2 powi qe)) * 2 powi qe"
  from ilog2_spec [OF ax] have s: "2 powi e \<le> \<bar>x\<bar>" by (simp add: e_def)
  have "\<not> 53 \<le> e"
  proof
    assume "53 \<le> e"
    then have "(2::rat) powi 53 \<le> 2 powi e" by (rule pow2_mono)
    with s assms show False by simp
  qed
  then have q0: "qe \<le> 0" by (simp add: qe_def)
  define j where "j = nat (- qe)"
  have qj: "qe = - int j" using q0 by (simp add: j_def)
  have pq: "(2::rat) powi qe = 1 / 2 ^ j" by (simp add: qj power_int_minus divide_inverse)
  have xq: "x / 2 powi qe = x * 2 ^ j" by (simp add: pq)
  have "of_int (\<lfloor>x\<rfloor> * 2 ^ j) \<le> x * 2 ^ j"
    by (simp add: mult_right_mono)
  then have lo: "\<lfloor>x\<rfloor> * 2 ^ j \<le> py_round (x * 2 ^ j)" by (rule py_round_ge)
  have "x * 2 ^ j \<le> of_int (\<lceil>x\<rceil> * 2 ^ j)"
    by (simp add: mult_right_mono)
  then have hi: "py_round (x * 2 ^ j) \<le> \<lceil>x\<rceil> * 2 ^ j" by (rule py_round_le)
  have yv: "y = of_int (py_round (x * 2 ^ j)) / 2 ^ j" by (simp add: y_def xq pq)
  have "(of_int (\<lfloor>x\<rfloor> * 2 ^ j) :: rat) \<le> of_int (py_round (x * 2 ^ j))"
    using lo by (simp only: of_int_le_iff)
  then have ylo: "of_int \<lfloor>x\<rfloor> \<le> y" unfolding yv by (simp add: le_divide_eq)
  have "(of_int (py_round (x * 2 ^ j)) :: rat) \<le> of_int (\<lceil>x\<rceil> * 2 ^ j)"
    using hi by (simp only: of_int_le_iff)
  then have yhi: "y \<le> of_int \<lceil>x\<rceil>" unfolding yv by (simp add: divide_le_eq)
  from assms have xb: "- (2 ^ 53) < x" "x < 2 ^ 53" by (simp_all add: abs_less_iff)
  have "(of_int (- (2 ^ 53)) :: rat) \<le> x" using xb(1) by simp
  then have "- (2 ^ 53) \<le> \<lfloor>x\<rfloor>" by (simp only: le_floor_iff)
  then have "(of_int (- (2 ^ 53)) :: rat) \<le> of_int \<lfloor>x\<rfloor>" by (simp only: of_int_le_iff)
  then have "(- (2 ^ 53) :: rat) \<le> of_int \<lfloor>x\<rfloor>" by simp
  from this ylo have y1: "- (2 ^ 53) \<le> y" by (rule order_trans)
  have "x \<le> (of_int (2 ^ 53) :: rat)" using xb(2) by simp
  then have "\<lceil>x\<rceil> \<le> 2 ^ 53" by (simp only: ceiling_le_iff)
  then have "(of_int \<lceil>x\<rceil> :: rat) \<le> of_int (2 ^ 53)" by (simp only: of_int_le_iff)
  then have "(of_int \<lceil>x\<rceil> :: rat) \<le> 2 ^ 53" by simp
  with yhi have y2: "y \<le> 2 ^ 53" by (rule order_trans)
  have "(2::rat) ^ 53 < 2 ^ 1024" by simp
  with y1 y2 have "\<not> 2 ^ 1024 \<le> y" "\<not> y \<le> - (2 ^ 1024)" by linarith+
  then have "fl x = Fin y"
    using False by (simp add: fl_def ulp_def Let_def e_def [symmetric] qe_def [symmetric] y_def)
  with ylo yhi show ?thesis by blast
qed

lemma fl_of_int: "\<bar>n\<bar> < 2 ^ 53 \<Longrightarrow> fl (of_int n) = Fin (of_int n)"
proof -
  assume n: "\<bar>n\<bar> < 2 ^ 53"
  then have "(of_int \<bar>n\<bar> :: rat) < of_int (2 ^ 53)" by (simp only: of_int_less_iff)
  then have "\<bar>of_int n :: rat\<bar> < 2 ^ 53" by simp
  moreover have "(2::rat) ^ 53 < 2 ^ 1024" by simp
  ultimately have r: "\<bar>of_int n :: rat\<bar> < 2 ^ 1024" by linarith
  show ?thesis by (rule fl_exact [of _ n 0]) (use n r in simp_all)
qed

lemma fl_dyadic:
  assumes "\<bar>n\<bar> < 2 ^ 53" and "j \<le> 1074"
  shows "fl (of_int n / 2 ^ j) = Fin (of_int n / 2 ^ j)"
proof -
  from assms(1) have "(of_int \<bar>n\<bar> :: rat) < of_int (2 ^ 53)" by (simp only: of_int_less_iff)
  then have a: "\<bar>of_int n :: rat\<bar> < 2 ^ 53" by simp
  have "\<bar>of_int n / 2 ^ j :: rat\<bar> = \<bar>of_int n\<bar> / 2 ^ j" by simp
  also have "\<dots> \<le> \<bar>of_int n\<bar>" by (simp add: divide_le_eq mult_le_cancel_left1)
  finally have "\<bar>of_int n / 2 ^ j :: rat\<bar> < 2 ^ 1024" using a by simp
  moreover have "(of_int n / 2 ^ j :: rat) = of_int n * 2 powi (- int j)"
    by (simp add: power_int_minus divide_inverse)
  ultimately show ?thesis
    by (intro fl_exact [of _ n "- int j"]) (use assms in simp_all)
qed

lemma fl_numeral: "(numeral n :: int) < 2 ^ 53 \<Longrightarrow> fl (numeral n) = Fin (numeral n)"
  using fl_of_int [of "numeral n"] by simp

lemma fl_one: "fl 1 = Fin 1"
  using fl_of_int [of 1] by simp

lemma fl_numeral_half:
  "(numeral n :: int) < 2 ^ 53 \<Longrightarrow> fl (numeral n / 2) = Fin (numeral n / 2)"
  using fl_dyadic [of "numeral n" 1] by simp

lemma fl_numeral_quarter:
  "(numeral n :: int) < 2 ^ 53 \<Longrightarrow> fl (numeral n / 4) = Fin (numeral n / 4)"
  using fl_dyadic [of "numeral n" 2] by simp

lemmas fl_simps = fl_numeral fl_one fl_numeral_half fl_numeral_quarter

subsection \<open>Unit converter\<close>

lemma py_int_nonneg: "0 \<le> x \<Longrightarrow> py_int x = \<lfloor>x\<rfloor>"
  by (simp add: py_int_def)

lemma py_int_trunc:
  "0 \<le> of_int (py_int y) * y \<and> \<bar>of_int (py_int y)\<bar> \<le> \<bar>y\<bar>
   \<and> \<bar>y\<bar> - \<bar>of_int (py_int y)\<bar> < 1"
proof (cases "0 \<le> y")
  case True
  then have p: "py_int y = \<lfloor>y\<rfloor>" by (simp add: py_int_def)
  have f0: "(0::rat) \<le> of_int \<lfloor>y\<rfloor>" using True by simp
  have f1: "of_int \<lfloor>y\<rfloor> \<le> y" by (rule of_int_floor_le)
  have f2: "y < of_int \<lfloor>y\<rfloor> + 1" by linarith
  have s: "(0::rat) \<le> of_int \<lfloor>y\<rfloor> * y" using f0 True by (rule mult_nonneg_nonneg)
  show ?thesis unfolding p using f0 f1 f2 s True by linarith
next
  case False
  then have neg: "y < 0" by simp
  then have p: "py_int y = \<lceil>y\<rceil>" by (simp add: py_int_def)
  have c0: "(of_int \<lceil>y\<rceil> :: rat) \<le> 0" using neg by (simp add: ceiling_le_iff)
  have c1: "y \<le> of_int \<lceil>y\<rceil>" by (rule le_of_int_ceiling)
  have c2: "of_int \<lceil>y\<rceil> < y + 1" by linarith
  have s: "(0::rat) \<le> of_int \<lceil>y\<rceil> * y"
    using c0 neg by (intro mult_nonpos_nonpos) simp_all
  show ?thesis unfolding p using c0 c1 c2 s neg by linarith
qed

text \<open>
  The double that \<^verbatim>\<open>7.0 * width + 5\<close> yields, for a width up to \<open>2 ^ 50\<close> in magnitude:
  two roundings, neither of which crosses an integer.
\<close>

lemma seven_w_plus_five:
  assumes "\<bar>w\<bar> \<le> 2 ^ 50"
  shows "\<exists>y. fadd (fmul (Fin 7) (Fin w)) (Fin 5) = Fin y
     \<and> of_int \<lfloor>7 * w + 5\<rfloor> \<le> y \<and> y \<le> of_int \<lceil>7 * w + 5\<rceil>"
proof -
  from assms have w: "- (2 ^ 50) \<le> w" "w \<le> 2 ^ 50" by (simp_all add: abs_le_iff)
  then have "\<bar>7 * w\<bar> < 2 ^ 53" by (simp add: abs_less_iff)
  from fl_between [OF this] obtain a where a: "fl (7 * w) = Fin a"
    and a1: "of_int \<lfloor>7 * w\<rfloor> \<le> a" and a2: "a \<le> of_int \<lceil>7 * w\<rceil>" by blast
  have f1: "of_int \<lfloor>7 * w\<rfloor> \<le> 7 * w" by (rule of_int_floor_le)
  have f2: "7 * w - 1 < of_int \<lfloor>7 * w\<rfloor>" by linarith
  have c1: "7 * w \<le> of_int \<lceil>7 * w\<rceil>" by (rule le_of_int_ceiling)
  have c2: "of_int \<lceil>7 * w\<rceil> < 7 * w + 1" by linarith
  from w a1 a2 f2 c2 have "\<bar>a + 5\<bar> < 2 ^ 53" by (simp add: abs_less_iff)
  from fl_between [OF this] obtain y where y: "fl (a + 5) = Fin y"
    and y1: "of_int \<lfloor>a + 5\<rfloor> \<le> y" and y2: "y \<le> of_int \<lceil>a + 5\<rceil>" by blast
  from a1 have "\<lfloor>7 * w\<rfloor> \<le> \<lfloor>a\<rfloor>" by (simp only: le_floor_iff)
  then have "\<lfloor>7 * w + 5\<rfloor> \<le> \<lfloor>a + 5\<rfloor>" by simp
  then have "(of_int \<lfloor>7 * w + 5\<rfloor> :: rat) \<le> of_int \<lfloor>a + 5\<rfloor>" by (simp only: of_int_le_iff)
  from this y1 have lo: "of_int \<lfloor>7 * w + 5\<rfloor> \<le> y" by (rule order_trans)
  from a2 have "\<lceil>a\<rceil> \<le> \<lceil>7 * w\<rceil>" by (simp only: ceiling_le_iff)
  then have "\<lceil>a + 5\<rceil> \<le> \<lceil>7 * w + 5\<rceil>" by simp
  then have "(of_int \<lceil>a + 5\<rceil> :: rat) \<le> of_int \<lceil>7 * w + 5\<rceil>" by (simp only: of_int_le_iff)
  with y2 have hi: "y \<le> of_int \<lceil>7 * w + 5\<rceil>" by (rule order_trans)
  have "fadd (fmul (Fin 7) (Fin w)) (Fin 5) = Fin y" by (simp add: a y)
  with lo hi show ?thesis by blast
qed

text \<open>
  Claim C3 as stated fails: at width 1.25, a double, the source yields
  \<open>int(13.75) = 13\<close>, while the nearest integer to 13.75 is 14. (8.75 and 13.75 are
  doubles too, so no rounding takes place.)
\<close>

theorem col_width_to_pixels_not_round:
  "fl (5 / 4) = Fin (5 / 4)
   \<and> col_width_to_pixels (Fin (5 / 4)) = Inr 13
   \<and> spec_col_width_to_pixels (5 / 4) = 14"
  by (simp add: col_width_to_pixels_def spec_col_width_to_pixels_def py_int_float_def
      py_int_def round_def fl_simps)

lemma fl_seven_2_1023: "fl (7 * 2 ^ 1023) = PInf"
  by (rule trans [OF fl_eval [of 1025]]) (simp_all add: py_round_def Let_def)

text \<open>
  Claim C3, amended: for a finite width \<open>w\<close> of magnitude at most \<open>2 ^ 50\<close>, the
  width-to-pixels conversion returns the double \<open>y\<close> that \<^verbatim>\<open>7.0 * w + 5\<close> evaluates to,
  truncated toward zero: the result has the sign of \<open>y\<close>, its magnitude is at most that
  of \<open>y\<close> and less than 1 below it. The double \<open>y\<close> lies between the floor and the ceiling
  of \<open>7 w + 5\<close>, so for \<open>w \<ge> -5/7\<close> the result is the floor of \<open>7 w + 5\<close>, or one more when
  the double arithmetic rounds \<open>7 w + 5\<close> up to that whole number; it is not the nearest
  integer. For an infinite width, and for one as large as \<open>2 ^ 1023\<close>, it raises
  \<^verbatim>\<open>OverflowError\<close>; for NaN it raises \<^verbatim>\<open>ValueError\<close>.
\<close>

theorem col_width_to_pixels_truncates:
  "(\<bar>w\<bar> \<le> 2 ^ 50 \<longrightarrow>
      (\<exists>y p. fadd (fmul (Fin 7) (Fin w)) (Fin 5) = Fin y
         \<and> col_width_to_pixels (Fin w) = Inr p
         \<and> of_int \<lfloor>7 * w + 5\<rfloor> \<le> y \<and> y \<le> of_int \<lceil>7 * w + 5\<rceil>
         \<and> 0 \<le> of_int p * y \<and> \<bar>of_int p\<bar> \<le> \<bar>y\<bar> \<and> \<bar>y\<bar> - \<bar>of_int p\<bar> < 1
         \<and> (- 5 / 7 \<le> w \<longrightarrow>
               p = \<lfloor>7 * w + 5\<rfloor> \<or> (p = \<lfloor>7 * w + 5\<rfloor> + 1 \<and> y = of_int p))))
   \<and> col_width_to_pixels PInf = Inl OverflowError
   \<and> col_width_to_pixels NInf = Inl OverflowError
   \<and> col_width_to_pixels (Fin (2 ^ 1023)) = Inl OverflowError
   \<and> col_width_to_pixels NaN = Inl ValueError"
  (is "(_ \<longrightarrow> ?A) \<and> ?B")
proof (intro conjI impI)
  assume "\<bar>w\<bar> \<le> 2 ^ 50"
  from seven_w_plus_five [OF this] obtain y where
    y: "fadd (fmul (Fin 7) (Fin w)) (Fin 5) = Fin y"
    and lo: "of_int \<lfloor>7 * w + 5\<rfloor> \<le> y" and hi: "y \<le> of_int \<lceil>7 * w + 5\<rceil>" by blast
  define p where "p = py_int y"
  have c: "col_width_to_pixels (Fin w) = Inr p"
    by (simp only: col_width_to_pixels_def y) (simp add: py_int_float_def p_def)
  have t: "0 \<le> of_int p * y \<and> \<bar>of_int p\<bar> \<le> \<bar>y\<bar> \<and> \<bar>y\<bar> - \<bar>of_int p\<bar> < 1"
    unfolding p_def by (rule py_int_trunc)
  have n: "p = \<lfloor>7 * w + 5\<rfloor> \<or> (p = \<lfloor>7 * w + 5\<rfloor> + 1 \<and> y = of_int p)" if "- 5 / 7 \<le> w"
  proof -
    from that have "0 \<le> 7 * w + 5" by linarith
    then have "0 \<le> \<lfloor>7 * w + 5\<rfloor>" by (simp only: zero_le_floor)
    then have "(0::rat) \<le> of_int \<lfloor>7 * w + 5\<rfloor>" by simp
    with lo have "0 \<le> y" by linarith
    then have pf: "p = \<lfloor>y\<rfloor>" by (simp add: p_def py_int_def)
    from lo have p1: "\<lfloor>7 * w + 5\<rfloor> \<le> p" unfolding pf by (simp only: le_floor_iff)
    have "7 * w + 5 \<le> of_int (\<lfloor>7 * w + 5\<rfloor> + 1)" by linarith
    then have "\<lceil>7 * w + 5\<rceil> \<le> \<lfloor>7 * w + 5\<rfloor> + 1" by (simp only: ceiling_le_iff)
    then have "(of_int \<lceil>7 * w + 5\<rceil> :: rat) \<le> of_int (\<lfloor>7 * w + 5\<rfloor> + 1)"
      by (simp only: of_int_le_iff)
    with hi have y1: "y \<le> of_int (\<lfloor>7 * w + 5\<rfloor> + 1)" by (rule order_trans)
    show ?thesis
    proof (cases "y = of_int (\<lfloor>7 * w + 5\<rfloor> + 1)")
      case True
      then have "p = \<lfloor>7 * w + 5\<rfloor> + 1" unfolding pf by (simp only: floor_of_int)
      with True show ?thesis by simp
    next
      case False
      with y1 have "y < of_int (\<lfloor>7 * w + 5\<rfloor> + 1)" by simp
      then have "p < \<lfloor>7 * w + 5\<rfloor> + 1" unfolding pf by (simp only: floor_less_iff)
      with p1 show ?thesis by simp
    qed
  qed
  from y c lo hi t n show ?A by blast
next
  show "col_width_to_pixels PInf = Inl OverflowError"
    by (simp add: col_width_to_pixels_def py_int_float_def inf_of_sgn_def f_sgn_def)
  show "col_width_to_pixels NInf = Inl OverflowError"
    by (simp add: col_width_to_pixels_def py_int_float_def inf_of_sgn_def f_sgn_def)
  show "col_width_to_pixels (Fin (2 ^ 1023)) = Inl OverflowError"
    by (simp add: col_width_to_pixels_def py_int_float_def fl_seven_2_1023 del: power_numeral)
  show "col_width_to_pixels NaN = Inl ValueError"
    by (simp add: col_width_to_pixels_def py_int_float_def)
qed

text \<open>
  The double that \<^verbatim>\<open>float\<close> reads from \<^verbatim>\<open>1.1428571428571428\<close> lies just below 8/7; there
  \<open>7 w + 5 < 13\<close> and the source returns 13.
\<close>

lemma fl_eight_sevenths_1: "fl (18014398509481983 / 2251799813685248) = Fin 8"
  by (rule trans [OF fl_eval [of 2]]) (simp_all add: py_round_def Let_def)

theorem col_width_to_pixels_truncates_witness:
  "\<bar>2573485501354569 / 2251799813685248 :: rat\<bar> \<le> 2 ^ 50
   \<and> (- 5 / 7 :: rat) \<le> 2573485501354569 / 2251799813685248
   \<and> fl (2573485501354569 / 2251799813685248) = Fin (2573485501354569 / 2251799813685248)
   \<and> col_width_to_pixels (Fin (2573485501354569 / 2251799813685248)) = Inr 13
   \<and> \<lfloor>7 * (2573485501354569 / 2251799813685248) + 5 :: rat\<rfloor> = 12
   \<and> (\<exists>y. fadd (fmul (Fin 7) (Fin (2573485501354569 / 2251799813685248))) (Fin 5) = Fin y
          \<and> y = 13)"
proof -
  let ?w = "2573485501354569 / 2251799813685248 :: rat"
  have h: "\<bar>?w\<bar> \<le> 2 ^ 50" by simp
  have g: "- 5 / 7 \<le> ?w" by simp
  have d: "fl ?w = Fin ?w"
    using fl_dyadic [of 2573485501354569 51] by simp
  have f: "\<lfloor>7 * ?w + 5\<rfloor> = 12" by simp
  have e: "col_width_to_pixels (Fin ?w) = Inr 13"
    by (simp add: col_width_to_pixels_def py_int_float_def py_int_def fl_eight_sevenths_1
        fl_simps)
  from col_width_to_pixels_truncates [of ?w] h g obtain y p where
    y: "fadd (fmul (Fin 7) (Fin ?w)) (Fin 5) = Fin y"
    and c: "col_width_to_pixels (Fin ?w) = Inr p"
    and n: "p = \<lfloor>7 * ?w + 5\<rfloor> \<or> (p = \<lfloor>7 * ?w + 5\<rfloor> + 1 \<and> y = of_int p)"
    by blast
  from c e have "p = 13" by simp
  with n f have "y = 13" by simp
  with y h g d e f show ?thesis by blast
qed

lemma fl_c4_product: "fl 99695537511672872 = Fin 99695537511672864"
  by (rule trans [OF fl_eval [of 56]]) (simp_all add: py_round_def Let_def)

lemma fl_c4_sum: "fl 99695537511672869 = Fin 99695537511672864"
  by (rule trans [OF fl_eval [of 56]]) (simp_all add: py_round_def Let_def)

lemma fl_c4_pixels: "fl 99695537511672859 = Fin 99695537511672864"
  by (rule trans [OF fl_eval [of 56]]) (simp_all add: py_round_def Let_def)

lemma fl_c4_quotient: "fl (99695537511672864 / 7) = Fin 14242219644524694"
  by (rule trans [OF fl_eval [of 53]]) (simp_all add: py_round_def Let_def)

lemma fl_c4_width: "fl 14242219644524696 = Fin 14242219644524696"
  by (rule trans [OF fl_eval [of 53]]) (simp_all add: py_round_def Let_def)

text \<open>
  Claim C4 as stated fails for large widths: at the double 14242219644524696 the
  doubles are 16 apart around \<open>7 x\<close>; the source converts it to 99695537511672864 pixels
  and those back to 14242219644524694, two units below.
\<close>

theorem col_width_round_trip_large:
  "(1::rat) \<le> 14242219644524696
   \<and> fl 14242219644524696 = Fin 14242219644524696
   \<and> col_width_to_pixels (Fin 14242219644524696) = Inr 99695537511672864
   \<and> pixels_to_col_width 99695537511672864 = Inr (Fin 14242219644524694)
   \<and> \<bar>14242219644524694 - 14242219644524696 :: rat\<bar> = 2"
proof -
  have c: "col_width_to_pixels (Fin 14242219644524696) = Inr 99695537511672864"
    by (simp add: col_width_to_pixels_def py_int_float_def py_int_def fl_c4_product
        fl_c4_sum)
  have p: "pixels_to_col_width 99695537511672864 = Inr (Fin 14242219644524694)"
    by (simp add: pixels_to_col_width_def float_of_int_def fdiv_def fl_c4_pixels
        fl_c4_quotient py_max_float_def)
  from c p fl_c4_width show ?thesis by simp
qed

text \<open>
  Claim C4, amended: for every width \<open>x\<close> with \<open>1 \<le> x \<le> 2 ^ 50\<close>, converting the width to
  pixels and the pixels back raises nothing and gives a width within 1 unit of \<open>x\<close>.
\<close>

theorem col_width_round_trip:
  assumes "1 \<le> x" and "x \<le> 2 ^ 50"
  shows "\<exists>p z. col_width_to_pixels (Fin x) = Inr p
     \<and> pixels_to_col_width p = Inr (Fin z)
     \<and> \<bar>z - x\<bar> \<le> 1"
proof -
  from assms have "\<bar>x\<bar> \<le> 2 ^ 50" by simp
  from seven_w_plus_five [OF this] obtain y where
    y: "fadd (fmul (Fin 7) (Fin x)) (Fin 5) = Fin y"
    and lo: "of_int \<lfloor>7 * x + 5\<rfloor> \<le> y" and hi: "y \<le> of_int \<lceil>7 * x + 5\<rceil>" by blast
  define p where "p = \<lfloor>y\<rfloor>"
  have f2: "7 * x + 5 - 1 < of_int \<lfloor>7 * x + 5\<rfloor>" by linarith
  have c2: "of_int \<lceil>7 * x + 5\<rceil> < 7 * x + 5 + 1" by linarith
  from f2 lo assms(1) have y0: "0 \<le> y" by linarith
  have c: "col_width_to_pixels (Fin x) = Inr p"
    using y0 by (simp only: col_width_to_pixels_def y) (simp add: py_int_float_def py_int_def p_def)
  from lo have "\<lfloor>7 * x + 5\<rfloor> \<le> p" unfolding p_def by (simp only: le_floor_iff)
  then have "(of_int \<lfloor>7 * x + 5\<rfloor> :: rat) \<le> of_int p" by (simp only: of_int_le_iff)
  with f2 have p1: "7 * x + 4 < of_int p" by linarith
  have "of_int p \<le> y" unfolding p_def by (rule of_int_floor_le)
  with hi c2 have p2: "of_int p < 7 * x + 6" by linarith
  define t :: rat where "t = of_int (p - 5) / 7"
  have t1: "x - 1 / 7 < t" unfolding t_def using p1 by (simp add: less_divide_eq algebra_simps)
  have t2: "t < x + 1 / 7" unfolding t_def using p2 by (simp add: divide_less_eq algebra_simps)
  have "(of_int p :: rat) < of_int (2 ^ 53)" using p2 assms(2) by simp
  then have pu: "p < 2 ^ 53" by (simp only: of_int_less_iff)
  have "(of_int 11 :: rat) < of_int p" using p1 assms(1) by simp
  then have pl: "11 < p" by (simp only: of_int_less_iff)
  from pl pu have "\<bar>p - 5\<bar> < 2 ^ 53" by simp
  then have fi: "float_of_int (p - 5) = Inr (Fin (of_int (p - 5)))"
    by (simp add: float_of_int_def fl_of_int del: of_int_diff)
  from t1 t2 assms have ta: "\<bar>t\<bar> \<le> 2 ^ 50 + 1" by (simp add: abs_le_iff)
  have "(2::rat) ^ 50 + 1 \<le> 2 ^ 1023" by simp
  with ta have "\<bar>t\<bar> \<le> 2 ^ 1023" by (rule order_trans)
  from fl_error [OF this] obtain z0 where z0: "fl t = Fin z0"
    and er: "\<bar>z0 - t\<bar> \<le> \<bar>t\<bar> / 2 ^ 53
      \<or> \<bar>z0 - t\<bar> \<le> 2 powi (- 1075) \<and> \<bar>t\<bar> < 2 powi (- 1022)"
    by blast
  have e4: "\<bar>z0 - t\<bar> \<le> 1 / 4"
  proof -
    from er show ?thesis
    proof
      assume "\<bar>z0 - t\<bar> \<le> \<bar>t\<bar> / 2 ^ 53"
      also have "\<dots> \<le> (2 ^ 50 + 1) / 2 ^ 53" using ta by (simp add: divide_right_mono)
      also have "\<dots> \<le> (1 / 4 :: rat)" by simp
      finally show ?thesis .
    next
      assume "\<bar>z0 - t\<bar> \<le> 2 powi (- 1075) \<and> \<bar>t\<bar> < 2 powi (- 1022)"
      then have "\<bar>z0 - t\<bar> \<le> (2::rat) powi (- 1075)" by simp
      also have "\<dots> \<le> 2 powi (- 2)" by (rule pow2_mono) simp
      also have "\<dots> = (1 / 4 :: rat)" by (simp add: power_int_minus)
      finally show ?thesis .
    qed
  qed
  define z where "z = (if 1 < z0 then z0 else 1)"
  have w: "pixels_to_col_width p = Inr (Fin z)"
    by (simp add: pixels_to_col_width_def fi fdiv_def t_def [symmetric] z0 py_max_float_def
        z_def del: of_int_diff)
  from e4 have e5: "z0 - t \<le> 1 / 4 \<and> - (z0 - t) \<le> 1 / 4" by (simp only: abs_le_iff)
  have "z - x \<le> 1 \<and> x - z \<le> 1"
  proof (cases "1 < z0")
    case True
    then have "z = z0" by (simp add: z_def)
    with e5 t1 t2 show ?thesis by linarith
  next
    case False
    then have "z = 1" by (simp add: z_def)
    with False e5 t1 t2 assms(1) show ?thesis by linarith
  qed
  then have "\<bar>z - x\<bar> \<le> 1" by (simp add: abs_le_iff)
  with c w show ?thesis by blast
qed

theorem col_width_round_trip_witness:
  "(1::rat) \<le> 2573485501354569 / 2251799813685248
   \<and> (2573485501354569 / 2251799813685248 :: rat) \<le> 2 ^ 50
   \<and> col_width_to_pixels (Fin (2573485501354569 / 2251799813685248)) = Inr 13
   \<and> pixels_to_col_width 13 = Inr (Fin (2573485501354569 / 2251799813685248))
   \<and> (\<exists>p z. col_width_to_pixels (Fin (2573485501354569 / 2251799813685248)) = Inr p
         \<and> pixels_to_col_width p = Inr (Fin z)
         \<and> \<bar>z - 2573485501354569 / 2251799813685248\<bar> \<le> 1)"
proof -
  let ?w = "2573485501354569 / 2251799813685248 :: rat"
  have h1: "1 \<le> ?w" by simp
  have h2: "?w \<le> 2 ^ 50" by simp
  have e: "col_width_to_pixels (Fin ?w) = Inr 13"
    by (simp add: col_width_to_pixels_def py_int_float_def py_int_def fl_eight_sevenths_1
        fl_simps)
  have q: "fl (8 / 7) = Fin ?w"
    by (rule trans [OF fl_eval [of 0]]) (simp_all add: py_round_def Let_def)
  have b: "pixels_to_col_width 13 = Inr (Fin ?w)"
    by (simp add: pixels_to_col_width_def float_of_int_def fdiv_def fl_simps q
        py_max_float_def)
  from h1 h2 e b col_width_round_trip [OF h1 h2] show ?thesis by blast
qed

subsection \<open>Frame-code parser\<close>

lemma of_char_py_lower_char:
  "(of_char (py_lower_char c) :: nat) =
     (if (65 \<le> (of_char c :: nat) \<and> (of_char c :: nat) \<le> 90)
         \<or> (192 \<le> (of_char c :: nat) \<and> (of_char c :: nat) \<le> 222 \<and> (of_char c :: nat) \<noteq> 215)
      then of_char c + 32 else of_char c)"
  by (auto simp: py_lower_char_def Let_def)

lemma char_eq_code: "(c = d) = ((of_char c :: nat) = of_char d)"
  by simp

lemma py_lower_char_dot: "py_lower_char c = CHR ''.'' \<longleftrightarrow> c = CHR ''.''"
  unfolding char_eq_code [of _ "CHR ''.''"] of_char_py_lower_char by auto

lemma py_lower_char_f: "py_lower_char c = CHR ''f'' \<longleftrightarrow> c = CHR ''f'' \<or> c = CHR ''F''"
  unfolding char_eq_code [of _ "CHR ''f''"] char_eq_code [of _ "CHR ''F''"] of_char_py_lower_char by auto

lemma not_digit_f: "py_lower_char c = CHR ''f'' \<Longrightarrow> \<not> is_digit c"
  unfolding py_lower_char_f by (auto simp: is_digit_def)

lemma window8_Cons_Suc: "window8 (c # cs) (Suc k) = window8 cs k"
  by (auto simp: window8_def)

lemma search_d8_Cons:
  "search_d8 (c # cs) =
     (if window8 (c # cs) 0 then Some (take 8 (drop 0 (c # cs))) else search_d8 cs)"
  unfolding window8_def by (simp only: search_d8.simps drop_0 add_0)


lemma window8_Nil: "\<not> window8 [] k"
  by (simp add: window8_def)

lemma search_d8_None: "search_d8 name = None \<longleftrightarrow> (\<forall>k. \<not> window8 name k)"
proof (induction name)
  case Nil
  show ?case by (simp add: window8_Nil)
next
  case (Cons c cs)
  show ?case
  proof (cases "window8 (c # cs) 0")
    case True
    then have "search_d8 (c # cs) \<noteq> None" by (simp add: search_d8_Cons)
    with True show ?thesis by blast
  next
    case False
    then have s: "search_d8 (c # cs) = search_d8 cs" by (simp add: search_d8_Cons)
    have "(\<forall>k. \<not> window8 (c # cs) k) \<longleftrightarrow> (\<forall>k. \<not> window8 cs k)"
    proof
      assume a: "\<forall>k. \<not> window8 (c # cs) k"
      show "\<forall>k. \<not> window8 cs k"
      proof
        fix k from a have "\<not> window8 (c # cs) (Suc k)" by blast
        then show "\<not> window8 cs k" by (simp add: window8_Cons_Suc)
      qed
    next
      assume a: "\<forall>k. \<not> window8 cs k"
      show "\<forall>k. \<not> window8 (c # cs) k"
      proof
        fix k show "\<not> window8 (c # cs) k"
          using a False by (cases k) (simp_all add: window8_Cons_Suc)
      qed
    qed
    with s Cons.IH show ?thesis by simp
  qed
qed

lemma search_d8_first:
  "window8 name k \<Longrightarrow> (\<forall>j<k. \<not> window8 name j) \<Longrightarrow> search_d8 name = Some (take 8 (drop k name))"
proof (induction name arbitrary: k)
  case Nil
  then show ?case by (simp add: window8_Nil)
next
  case (Cons c cs)
  show ?case
  proof (cases k)
    case 0
    with Cons.prems(1) show ?thesis by (simp add: search_d8_Cons)
  next
    case (Suc k')
    with Cons.prems(2) have n0: "\<not> window8 (c # cs) 0" by blast
    from Suc Cons.prems(1) have w: "window8 cs k'" by (simp add: window8_Cons_Suc)
    have "\<forall>j<k'. \<not> window8 cs j"
    proof (intro allI impI)
      fix j assume "j < k'"
      then have "Suc j < k" using Suc by simp
      with Cons.prems(2) have "\<not> window8 (c # cs) (Suc j)" by blast
      then show "\<not> window8 cs j" by (simp add: window8_Cons_Suc)
    qed
    with w have "search_d8 cs = Some (take 8 (drop k' cs))" by (rule Cons.IH)
    moreover have "search_d8 (c # cs) = search_d8 cs" using n0 by (simp add: search_d8_Cons)
    ultimately show ?thesis using Suc by simp
  qed
qed

lemma strict_core_search:
  assumes "strict_core s = Some g"
  shows "window8 s 1 \<and> \<not> window8 s 0 \<and> g = take 8 (drop 1 s) \<and> 10 \<le> length s"
proof (cases s)
  case Nil
  with assms show ?thesis by (simp add: strict_core_def)
next
  case (Cons c rest)
  with assms have h: "py_lower_char c = CHR ''f''" "9 \<le> length rest"
    "list_all is_digit (take 8 rest)" "g = take 8 rest"
    by (auto simp: strict_core_def split: if_splits)
  from h(1) have "\<not> is_digit c" by (rule not_digit_f)
  then have "\<not> window8 (c # rest) 0" by (simp add: window8_def)
  moreover have "window8 (c # rest) 1" using h(2,3) by (simp add: window8_def)
  ultimately show ?thesis using h Cons by simp
qed

lemma match_strict_search:
  assumes "match_strict name = Some g"
  shows "search_d8 name = Some g"
proof -
  have "window8 name 1 \<and> \<not> window8 name 0 \<and> g = take 8 (drop 1 name)"
  proof (cases "strict_core name")
    case (Some g')
    with assms have "g' = g" by (simp add: match_strict_def)
    with Some strict_core_search [of name g] show ?thesis by simp
  next
    case None
    with assms have b: "strict_core (butlast name) = Some g" and ne: "name \<noteq> []"
      by (auto simp: match_strict_def split: if_splits)
    from strict_core_search [OF b]
    have w: "window8 (butlast name) 1" "\<not> window8 (butlast name) 0"
      "g = take 8 (drop 1 (butlast name))" "10 \<le> length (butlast name)" by simp_all
    have t: "take 8 (drop k name) = take 8 (drop k (butlast name))" if "k \<le> 1" for k
      using w(4) that by (simp add: butlast_conv_take drop_take)
    have "window8 name k = window8 (butlast name) k" if "k \<le> 1" for k
      using t [OF that] w(4) that by (auto simp: window8_def)
    with w t show ?thesis by simp
  qed
  then have "window8 name 1" "\<forall>j<1. \<not> window8 name j" "g = take 8 (drop 1 name)" by simp_all
  with search_d8_first [of name 1] show ?thesis by simp
qed

lemma parse_frame_search:
  "parse_frame_from_filename name =
     (case search_d8 name of Some g \<Rightarrow> py_int_str g | None \<Rightarrow> None)"
proof (cases "match_strict name")
  case None
  then show ?thesis by (simp add: parse_frame_from_filename_def)
next
  case (Some g)
  then show ?thesis using match_strict_search [OF Some] by (simp add: parse_frame_from_filename_def)
qed

lemma decimal_snoc: "decimal (ds @ [d]) = 10 * decimal ds + digit_val d"
  by (simp add: decimal_def)

lemma decimal_bounds:
  "list_all is_digit ds \<Longrightarrow> 0 \<le> decimal ds \<and> decimal ds < 10 ^ length ds"
proof (induction ds rule: rev_induct)
  case Nil
  show ?case by (simp add: decimal_def)
next
  case (snoc d ds)
  then have ih: "0 \<le> decimal ds" "decimal ds < 10 ^ length ds" and d: "is_digit d" by simp_all
  from d have dv: "0 \<le> digit_val d" "digit_val d \<le> 9" by (simp_all add: is_digit_def digit_val_def)
  from ih(2) have "decimal ds + 1 \<le> 10 ^ length ds" by simp
  then have "10 * decimal ds + 10 \<le> 10 * 10 ^ length ds" by simp
  with ih dv show ?case by (simp add: decimal_snoc)
qed

lemma py_int_str_digits:
  "list_all is_digit g \<Longrightarrow> g \<noteq> [] \<Longrightarrow> py_int_str g = Some (decimal g)"
  by (simp add: py_int_str_def decimal_def)

lemma search_d8_digits:
  "search_d8 name = Some g \<Longrightarrow> length g = 8 \<and> list_all is_digit g"
proof (induction name)
  case Nil
  then show ?case by simp
next
  case (Cons c cs)
  then show ?case by (auto simp: search_d8_Cons window8_def split: if_splits)
qed

lemma strict_form_match:
  assumes "strict_form name"
  shows "match_strict name = Some (take 8 (tl name))"
proof -
  from assms obtain c rest where n: "name = c # rest"
    and c: "c = CHR ''f'' \<or> c = CHR ''F''" and len: "8 \<le> length rest"
    and dg: "list_all is_digit (take 8 rest)"
    and ext: "py_lower (drop 8 rest) \<in> set [''.jpg'', ''.jpeg'', ''.png'']"
    by (auto simp: strict_form_def split: list.splits)
  from ext obtain x t where d: "drop 8 rest = x # t" and x: "py_lower_char x = CHR ''.''"
    and t: "py_lower t \<in> set [''jpg'', ''jpeg'', ''png'']"
    by (cases "drop 8 rest") (auto simp: py_lower_def)
  from d have l9: "9 \<le> length rest"
    by (metis Suc_leI drop_eq_Nil2 eval_nat_numeral(3) list.distinct(1) not_le)
  from d have n8: "rest ! 8 = x" by (metis nth_via_drop)
  have "drop 9 rest = tl (drop 8 rest)" by (simp add: drop_Suc tl_drop numeral_eq_Suc)
  with d have d9: "drop 9 rest = t" by simp
  from x have xd: "x = CHR ''.''" by (simp add: py_lower_char_dot)
  from c have cf: "py_lower_char c = CHR ''f''" by (simp add: py_lower_char_f)
  have "strict_core name = Some (take 8 rest)"
    unfolding strict_core_def n using cf l9 dg n8 xd d9 t by simp
  then show ?thesis by (simp add: match_strict_def n)
qed

text \<open>
  Claim C5 as stated fails. The name \<open>a123456789.png\<close> is not of the strict form and
  its only run of digits has nine of them, so it holds no run of exactly eight digits
  and the claim has the parser return absent; the source's \<^verbatim>\<open>re.search(r"(\d{8})")\<close>
  takes the first eight digits of the longer run.
\<close>

theorem parse_frame_not_exact_run:
  "parse_frame_from_filename ''a123456789.png'' = Some 12345678
   \<and> spec_parse_frame ''a123456789.png'' = None"
  by (simp add: parse_frame_from_filename_def match_strict_def strict_core_def search_d8.simps(2)
      py_lower_char_def py_lower_def is_digit_def py_int_str_def digit_val_def
      spec_parse_frame_def strict_form_def digit_runs_def)

text \<open>
  Claim C5, amended. For every filename: if it is exactly the letter f (either case),
  eight digits and a .jpg, .jpeg or .png extension (any case), the parser returns those
  eight digits as an integer; in general it returns the eight digits at the leftmost
  position where eight digits follow each other, whether or not the run of digits
  goes on after them; it returns absent exactly when no eight digits follow each other
  anywhere in the name; a result is between 0 and 99999999; the parser is a total
  function, so no error is raised.
\<close>

theorem parse_frame_leftmost_window:
  "(strict_form name \<longrightarrow>
      parse_frame_from_filename name = Some (decimal (take 8 (tl name))))
   \<and> (\<forall>k. window8 name k \<and> (\<forall>j<k. \<not> window8 name j) \<longrightarrow>
          parse_frame_from_filename name = Some (decimal (take 8 (drop k name))))
   \<and> (parse_frame_from_filename name = None \<longleftrightarrow> (\<forall>k. \<not> window8 name k))
   \<and> (\<forall>n. parse_frame_from_filename name = Some n \<longrightarrow> 0 \<le> n \<and> n < 10 ^ 8)"
proof -
  have val: "py_int_str g = Some (decimal g) \<and> 0 \<le> decimal g \<and> decimal g < 10 ^ 8"
    if "search_d8 name = Some g" for g
  proof -
    from search_d8_digits [OF that] have g: "length g = 8" "list_all is_digit g" by simp_all
    then have "g \<noteq> []" by auto
    with g py_int_str_digits [of g] decimal_bounds [of g] show ?thesis by simp
  qed
  have a: "parse_frame_from_filename name = Some (decimal (take 8 (tl name)))"
    if "strict_form name"
  proof -
    from strict_form_match [OF that] have "search_d8 name = Some (take 8 (tl name))"
      by (rule match_strict_search)
    with val [OF this] show ?thesis by (simp add: parse_frame_search)
  qed
  have b: "parse_frame_from_filename name = Some (decimal (take 8 (drop k name)))"
    if "window8 name k" "\<forall>j<k. \<not> window8 name j" for k
  proof -
    from that have "search_d8 name = Some (take 8 (drop k name))" by (rule search_d8_first)
    with val [OF this] show ?thesis by (simp add: parse_frame_search)
  qed
  have c: "parse_frame_from_filename name = None \<longleftrightarrow> (\<forall>k. \<not> window8 name k)"
  proof (cases "search_d8 name")
    case None
    then show ?thesis using search_d8_None [of name] by (simp add: parse_frame_search)
  next
    case (Some g)
    then have "search_d8 name \<noteq> None" by simp
    then have w: "\<not> (\<forall>k. \<not> window8 name k)" using search_d8_None [of name] by auto
    from val [OF Some] Some have "parse_frame_from_filename name \<noteq> None"
      by (simp add: parse_frame_search)
    with w show ?thesis by blast
  qed
  have d: "0 \<le> n \<and> n < 10 ^ 8" if "parse_frame_from_filename name = Some n" for n
  proof (cases "search_d8 name")
    case None
    with that show ?thesis by (simp add: parse_frame_search)
  next
    case (Some g)
    with that val [OF Some] show ?thesis by (simp add: parse_frame_search)
  qed
  from a b c d show ?thesis by blast
qed

theorem parse_frame_leftmost_window_witness:
  "strict_form ''F00001234.PNG''
   \<and> parse_frame_from_filename ''F00001234.PNG'' = Some 1234
   \<and> window8 ''a123456789.png'' 1
   \<and> parse_frame_from_filename ''a123456789.png'' = Some 12345678
   \<and> parse_frame_from_filename ''cover.png'' = None
   \<and> \<not> window8 ''cover.png'' 0"
proof -
  have s: "strict_form ''F00001234.PNG''"
    by (simp add: strict_form_def is_digit_def py_lower_def py_lower_char_def char_of_eq_iff)
  have w: "window8 ''a123456789.png'' 1 \<and> (\<forall>j<1. \<not> window8 ''a123456789.png'' j)"
    by (simp add: window8_def is_digit_def)
  have n: "parse_frame_from_filename ''cover.png'' = None"
    by (simp add: parse_frame_from_filename_def match_strict_def strict_core_def
        search_d8.simps(2) py_lower_char_def py_lower_def is_digit_def)
  from s parse_frame_leftmost_window [of "''F00001234.PNG''"]
  have 1: "parse_frame_from_filename ''F00001234.PNG'' = Some 1234"
    by (simp add: decimal_def digit_val_def)
  from w parse_frame_leftmost_window [of "''a123456789.png''"]
  have "parse_frame_from_filename ''a123456789.png'' = Some (decimal (take 8 (drop 1 ''a123456789.png'')))"
    by blast
  then have 2: "parse_frame_from_filename ''a123456789.png'' = Some 12345678"
    by (simp add: decimal_def digit_val_def)
  from n parse_frame_leftmost_window [of "''cover.png''"]
  have 3: "\<not> window8 ''cover.png'' 0" by blast
  from s w 1 2 n 3 show ?thesis by blast
qed


subsection \<open>Timecode converter\<close>

lemma digit_char_nth:
  assumes "k < 10"
  shows "is_digit (''0123456789'' ! k) \<and> digit_val (''0123456789'' ! k) = int k"
proof -
  from assms have "k = 0 \<or> k = 1 \<or> k = 2 \<or> k = 3 \<or> k = 4 \<or> k = 5 \<or> k = 6 \<or> k = 7
      \<or> k = 8 \<or> k = 9" by arith
  then show ?thesis by (auto simp: is_digit_def digit_val_def)
qed

lemma digits_of_nat_decimal:
  "list_all is_digit (digits_of_nat n) \<and> decimal (digits_of_nat n) = int n
   \<and> digits_of_nat n \<noteq> []"
proof (induction n rule: digits_of_nat.induct)
  case (1 n)
  show ?case
  proof (cases "n < 10")
    case True
    then have d: "digits_of_nat n = [''0123456789'' ! n]" by (subst digits_of_nat.simps) simp
    from digit_char_nth [OF True] show ?thesis unfolding d by (simp add: decimal_def)
  next
    case False
    then have d: "digits_of_nat n = digits_of_nat (n div 10) @ [''0123456789'' ! (n mod 10)]"
      by (subst digits_of_nat.simps) simp
    have m: "n mod 10 < 10" by simp
    from False "1.IH" have ih: "list_all is_digit (digits_of_nat (n div 10))"
      "decimal (digits_of_nat (n div 10)) = int (n div 10)" by simp_all
    from digit_char_nth [OF m]
    have dm: "is_digit (''0123456789'' ! (n mod 10))"
      "digit_val (''0123456789'' ! (n mod 10)) = int (n mod 10)" by simp_all
    have "decimal (digits_of_nat n) = 10 * int (n div 10) + int (n mod 10)"
      unfolding d decimal_snoc ih(2) dm(2) ..
    also have "\<dots> = int n" by presburger
    finally have v: "decimal (digits_of_nat n) = int n" .
    have "list_all is_digit (digits_of_nat n)" unfolding d using ih(1) dm(1) by simp
    moreover have "digits_of_nat n \<noteq> []" unfolding d by simp
    ultimately show ?thesis using v by simp
  qed
qed

lemma digits_of_nat_length:
  "(n < 10 \<longrightarrow> length (digits_of_nat n) = 1)
   \<and> (10 \<le> n \<and> n < 100 \<longrightarrow> length (digits_of_nat n) = 2)"
proof -
  have a: "length (digits_of_nat k) = 1" if "k < 10" for k
    using that by (subst digits_of_nat.simps) simp
  have b: "length (digits_of_nat n) = Suc (length (digits_of_nat (n div 10)))" if "10 \<le> n"
    using that by (subst digits_of_nat.simps) simp
  have c: "n div 10 < 10" if "n < 100" using that by simp
  show ?thesis
  proof (intro conjI impI)
    show "length (digits_of_nat n) = 1" if "n < 10" using that by (rule a)
    show "length (digits_of_nat n) = 2" if "10 \<le> n \<and> n < 100"
    proof -
      from that have "10 \<le> n" "n < 100" by simp_all
      with b a [OF c] show ?thesis by simp
    qed
  qed
qed

lemma decimal_zero_pad: "decimal (zero_pad w s) = decimal s"
proof -
  have "foldl (\<lambda>a c. 10 * a + digit_val c) 0 (replicate k (CHR ''0'')) = 0" for k
    by (induction k) (simp_all add: digit_val_def)
  then show ?thesis by (simp add: zero_pad_def decimal_def)
qed

lemma is_digit_zero_pad: "list_all is_digit s \<Longrightarrow> list_all is_digit (zero_pad w s)"
  by (auto simp: zero_pad_def is_digit_def list_all_iff)

lemma length_zero_pad: "length (zero_pad w s) = max w (length s)"
  by (simp add: zero_pad_def)

lemma fmt_02d_nonneg:
  assumes "0 \<le> n"
  shows "list_all is_digit (fmt_02d n) \<and> decimal (fmt_02d n) = n \<and> 2 \<le> length (fmt_02d n)
    \<and> (n < 100 \<longrightarrow> length (fmt_02d n) = 2)"
proof -
  from assms have f: "fmt_02d n = zero_pad 2 (digits_of_nat (nat n))" by (simp add: fmt_02d_def)
  have l: "length (digits_of_nat (nat n)) \<le> 2" if "n < 100"
  proof (cases "nat n < 10")
    case True
    with digits_of_nat_length [of "nat n"] show ?thesis by simp
  next
    case False
    with that have "10 \<le> nat n \<and> nat n < 100" by simp
    with digits_of_nat_length [of "nat n"] show ?thesis by simp
  qed
  from digits_of_nat_decimal [of "nat n"] assms
  have d: "list_all is_digit (digits_of_nat (nat n))" "decimal (digits_of_nat (nat n)) = n"
    by simp_all
  show ?thesis unfolding f decimal_zero_pad length_zero_pad
    using d l is_digit_zero_pad [OF d(1)] by simp
qed

lemma fmt_02d_0: "fmt_02d 0 = ''00''"
  by (simp add: fmt_02d_def zero_pad_def digits_of_nat.simps)

lemma floor_between:
  fixes x y :: rat
  assumes "of_int \<lfloor>x\<rfloor> \<le> y" and "y \<le> of_int \<lceil>x\<rceil>"
  shows "\<lfloor>y\<rfloor> = \<lfloor>x\<rfloor> \<or> (\<lfloor>y\<rfloor> = \<lfloor>x\<rfloor> + 1 \<and> y = of_int \<lfloor>y\<rfloor>)"
proof -
  from assms(1) have p1: "\<lfloor>x\<rfloor> \<le> \<lfloor>y\<rfloor>" by (simp only: le_floor_iff)
  have "x \<le> of_int (\<lfloor>x\<rfloor> + 1)" by linarith
  then have "\<lceil>x\<rceil> \<le> \<lfloor>x\<rfloor> + 1" by (simp only: ceiling_le_iff)
  then have "(of_int \<lceil>x\<rceil> :: rat) \<le> of_int (\<lfloor>x\<rfloor> + 1)" by (simp only: of_int_le_iff)
  with assms(2) have y1: "y \<le> of_int (\<lfloor>x\<rfloor> + 1)" by (rule order_trans)
  show ?thesis
  proof (cases "y = of_int (\<lfloor>x\<rfloor> + 1)")
    case True
    then have "\<lfloor>y\<rfloor> = \<lfloor>x\<rfloor> + 1" by (simp only: floor_of_int)
    with True show ?thesis by simp
  next
    case False
    with y1 have "y < of_int (\<lfloor>x\<rfloor> + 1)" by simp
    then have "\<lfloor>y\<rfloor> < \<lfloor>x\<rfloor> + 1" by (simp only: floor_less_iff)
    with p1 show ?thesis by simp
  qed
qed

lemma fl_nonneg:
  assumes "0 \<le> x" and "fl x = Fin y"
  shows "0 \<le> y"
proof (cases "x = 0")
  case True
  with assms(2) show ?thesis by (simp add: fl_def)
next
  case False
  have u: "0 < ulp x" by (simp add: ulp_def)
  with assms(1) have "of_int 0 \<le> x / ulp x" by simp
  then have "0 \<le> py_round (x / ulp x)" by (rule py_round_ge)
  then have "(0::rat) \<le> of_int (py_round (x / ulp x))" by simp
  with u have "0 \<le> of_int (py_round (x / ulp x)) * ulp x" by simp
  moreover from assms(2) False have "y = of_int (py_round (x / ulp x)) * ulp x"
    by (simp add: fl_def Let_def split: if_splits)
  ultimately show ?thesis by simp
qed

lemma fl_nonneg_cases:
  assumes "0 \<le> x"
  shows "fl x = PInf \<or> (\<exists>y. fl x = Fin y)"
proof (cases "x = 0")
  case True
  then show ?thesis by (simp add: fl_def)
next
  case False
  have u: "0 < ulp x" by (simp add: ulp_def)
  with assms have "of_int 0 \<le> x / ulp x" by simp
  then have "0 \<le> py_round (x / ulp x)" by (rule py_round_ge)
  then have "(0::rat) \<le> of_int (py_round (x / ulp x))" by simp
  with u have "0 \<le> of_int (py_round (x / ulp x)) * ulp x" by simp
  moreover have "(0::rat) < 2 ^ 1024" by simp
  ultimately have "\<not> of_int (py_round (x / ulp x)) * ulp x \<le> - (2 ^ 1024)" by linarith
  with False show ?thesis by (simp add: fl_def Let_def)
qed

lemma timecode_Fin:
  assumes "0 < q" and "\<bar>f\<bar> < 2 ^ 53"
  shows "timecode (Some f) (Fin q) = seconds_to_hhmmss_floor (fl (of_int f / q))"
  using assms by (simp add: timecode_def float_of_int_def fl_of_int fdiv_def)

lemma fl_ntsc_72000: "fl (72000 / double_ntsc) = Fin 3003"
  unfolding double_ntsc_def
  by (rule trans [OF fl_eval [of 11]]) (simp_all add: py_round_def Let_def)

lemma fl_ms_99999999: "fl (99999999 / double_0_001) = Fin 99999999000"
  unfolding double_0_001_def
  by (rule trans [OF fl_eval [of 36]]) (simp_all add: py_round_def Let_def)

lemma fl_tiny_rate: "fl (99999999 / 2 powi (- 1000)) = PInf"
  by (rule trans [OF fl_eval [of 1026]]) (simp_all add: py_round_def Let_def)

text \<open>
  Claim C6 as stated fails: the source floors the double that \<^verbatim>\<open>frame / fps\<close> evaluates
  to, not the quotient. At the rate 23.976023976023978 (a double) frame 72000 lies
  just before second 3003; the double quotient is 3003.0 and the source writes
  \<open>00:50:03\<close>, where the floor of the quotient gives \<open>00:50:02\<close>.
\<close>

theorem timecode_floor_of_double:
  "fl double_ntsc = Fin double_ntsc
   \<and> timecode (Some 72000) (Fin double_ntsc) = Inr ''00:50:03''
   \<and> spec_timecode (Some 72000) double_ntsc = ''00:50:02''"
proof -
  have d: "fl double_ntsc = Fin double_ntsc"
    unfolding double_ntsc_def using fl_dyadic [of 6748650790265479 48] by simp
  have p: "0 < double_ntsc" by (simp add: double_ntsc_def)
  have "timecode (Some 72000) (Fin double_ntsc)
      = seconds_to_hhmmss_floor (fl (of_int 72000 / double_ntsc))"
    using p by (intro timecode_Fin) simp_all
  then have t: "timecode (Some 72000) (Fin double_ntsc) = Inr ''00:50:03''"
    by (simp add: fl_ntsc_72000 seconds_to_hhmmss_floor_def py_floor_float_def fmt_02d_def
        zero_pad_def digits_of_nat.simps)
  have s: "spec_timecode (Some 72000) double_ntsc = ''00:50:02''"
    by (simp add: spec_timecode_def double_ntsc_def fmt_02d_def zero_pad_def
        digits_of_nat.simps)
  from d t s show ?thesis by simp
qed

text \<open>
  Claim C6, amended: the timecode of a row is the empty string when the frame index is
  absent or the frame rate is not above 0 (NaN included). For a frame \<open>f\<close> with
  \<open>0 \<le> f < 2 ^ 53\<close> (the parser gives eight digits) and a finite rate \<open>q > 0\<close>, let \<open>y\<close> be the
  double nearest to \<open>f / q\<close>, which is what \<^verbatim>\<open>frame / fps\<close> evaluates to. If \<open>y\<close> is finite,
  then with \<open>s\<close> the floor of \<open>y\<close> the timecode is \<open>HH:MM:SS\<close> for the hours \<open>s div 3600\<close> (not
  wrapped at 24), the minutes and the seconds, both between 0 and 59, with
  \<open>s = 3600 h + 60 m + r\<close>; each field is the decimal numeral of its value, padded with
  zeros to two digits (the hours may take more). When \<open>f / q < 2 ^ 53\<close>, \<open>y\<close> is finite and
  \<open>s\<close> is the floor of \<open>f / q\<close>, or one more when the division rounds up to that whole
  number. If \<open>y\<close> is infinite (a rate so small that the quotient overflows; there is no
  third case) the source raises \<^verbatim>\<open>OverflowError\<close>; at an infinite rate the timecode is \<open>00:00:00\<close>. Negative
  seconds give \<open>00:00:00\<close>. Frame 750 at 25 fps gives \<open>00:00:30\<close>, frame 90000 gives
  \<open>01:00:00\<close>.
\<close>

theorem timecode_contract:
  "timecode None fps = Inr []
   \<and> (\<not> f_lt (Fin 0) fps \<longrightarrow> timecode frame fps = Inr [])
   \<and> (0 < q \<and> 0 \<le> f \<and> f < 2 ^ 53 \<and> fl (of_int f / q) = Fin y \<longrightarrow>
        (let s = \<lfloor>y\<rfloor>; h = s div 3600; m = s mod 3600 div 60; r = s mod 60
         in timecode (Some f) (Fin q)
              = Inr (fmt_02d h @ '':'' @ fmt_02d m @ '':'' @ fmt_02d r)
            \<and> s = 3600 * h + 60 * m + r \<and> 0 \<le> h \<and> 0 \<le> m \<and> m \<le> 59 \<and> 0 \<le> r \<and> r \<le> 59
            \<and> list_all is_digit (fmt_02d h) \<and> decimal (fmt_02d h) = h \<and> 2 \<le> length (fmt_02d h)
            \<and> list_all is_digit (fmt_02d m) \<and> decimal (fmt_02d m) = m \<and> length (fmt_02d m) = 2
            \<and> list_all is_digit (fmt_02d r) \<and> decimal (fmt_02d r) = r \<and> length (fmt_02d r) = 2))
   \<and> (0 < q \<and> 0 \<le> f \<and> of_int f / q < 2 ^ 53 \<longrightarrow>
        (\<exists>z. fl (of_int f / q) = Fin z
           \<and> (\<lfloor>z\<rfloor> = \<lfloor>of_int f / q\<rfloor> \<or> (\<lfloor>z\<rfloor> = \<lfloor>of_int f / q\<rfloor> + 1 \<and> z = of_int \<lfloor>z\<rfloor>))))
   \<and> (0 < q \<and> 0 \<le> f \<and> f < 2 ^ 53 \<and> fl (of_int f / q) = PInf \<longrightarrow>
        timecode (Some f) (Fin q) = Inl OverflowError)
   \<and> (0 < q \<and> 0 \<le> f \<longrightarrow>
        fl (of_int f / q) = PInf \<or> (\<exists>z. fl (of_int f / q) = Fin z))
   \<and> (0 \<le> f \<and> f < 2 ^ 53 \<longrightarrow> timecode (Some f) PInf = Inr ''00:00:00'')
   \<and> (x < 0 \<longrightarrow> seconds_to_hhmmss_floor (Fin x) = Inr ''00:00:00'')
   \<and> seconds_to_hhmmss_floor NInf = Inr ''00:00:00''
   \<and> seconds_to_hhmmss_floor PInf = Inl OverflowError
   \<and> seconds_to_hhmmss_floor NaN = Inl ValueError
   \<and> timecode (Some 750) (Fin 25) = Inr ''00:00:30''
   \<and> timecode (Some 90000) (Fin 25) = Inr ''01:00:00''"
  (is "?A \<and> (_ \<longrightarrow> ?B) \<and> (_ \<longrightarrow> ?C) \<and> (_ \<longrightarrow> ?D) \<and> (_ \<longrightarrow> ?E) \<and> (_ \<longrightarrow> ?K) \<and> (_ \<longrightarrow> ?F)
       \<and> (_ \<longrightarrow> ?G) \<and> ?H1 \<and> ?H2 \<and> ?H3 \<and> ?E1 \<and> ?E2")
proof -
  have a: ?A by (simp add: timecode_def)
  have b: ?B if "\<not> f_lt (Fin 0) fps"
    using that by (cases frame) (simp_all add: timecode_def)
  have c: ?C if q: "0 < q" and f: "0 \<le> f" and f53: "f < 2 ^ 53"
    and y: "fl (of_int f / q) = Fin y"
  proof -
    define s where "s = \<lfloor>y\<rfloor>"
    define h where "h = s div 3600"
    define m where "m = s mod 3600 div 60"
    define r where "r = s mod 60"
    from q f have "0 \<le> of_int f / q" by simp
    from this y have y0: "0 \<le> y" by (rule fl_nonneg)
    then have s0: "0 \<le> s" unfolding s_def by simp
    have h0: "0 \<le> h" unfolding h_def using s0 by (simp add: pos_imp_zdiv_nonneg_iff)
    define t where "t = s mod 3600"
    have t0: "0 \<le> t" and t1: "t < 3600" unfolding t_def by simp_all
    have m0: "0 \<le> m" unfolding m_def t_def [symmetric] using t0
      by (simp add: pos_imp_zdiv_nonneg_iff)
    have "m < 60" unfolding m_def t_def [symmetric] using t1
      by (simp add: zdiv_mono1 div_less_iff_less_mult)
    then have m59: "m \<le> 59" by simp
    have r0: "0 \<le> r" and r59: "r \<le> 59" unfolding r_def by simp_all
    have "t mod 60 = r" unfolding t_def r_def by (simp add: mod_mod_cancel)
    moreover have "t = 60 * (t div 60) + t mod 60" by simp
    ultimately have tm: "t = 60 * m + r" unfolding m_def t_def by simp
    have sd: "s = 3600 * (s div 3600) + t" unfolding t_def by simp
    have dec: "s = 3600 * h + 60 * m + r" unfolding h_def using sd tm by linarith
    from f f53 have "\<bar>f\<bar> < 2 ^ 53" by simp
    with q have tf: "timecode (Some f) (Fin q) = seconds_to_hhmmss_floor (Fin y)"
      unfolding y [symmetric] by (rule timecode_Fin)
    have tc: "timecode (Some f) (Fin q)
        = Inr (fmt_02d h @ '':'' @ fmt_02d m @ '':'' @ fmt_02d r)"
    proof (cases "y = 0")
      case True
      have "s = 0" unfolding s_def True by simp
      then have "h = 0" "m = 0" "r = 0" unfolding h_def m_def r_def by simp_all
      with True show ?thesis
        unfolding tf by (simp add: seconds_to_hhmmss_floor_def fmt_02d_0)
    next
      case False
      with y0 have n: "\<not> (Fin y = Fin 0 \<or> f_lt (Fin y) (Fin 0))" by simp
      have "seconds_to_hhmmss_floor (Fin y)
          = Inr (fmt_02d h @ '':'' @ fmt_02d m @ '':'' @ fmt_02d r)"
        unfolding seconds_to_hhmmss_floor_def h_def m_def r_def s_def
        using n by (simp only: if_False py_floor_float_def pyfloat.case and_then_Inr Let_def)
      then show ?thesis unfolding tf .
    qed
    from m0 m59 r0 r59 have m100: "m < 100" and r100: "r < 100" by simp_all
    from fmt_02d_nonneg [OF h0]
    have fh: "list_all is_digit (fmt_02d h)" "decimal (fmt_02d h) = h" "2 \<le> length (fmt_02d h)"
      by simp_all
    from fmt_02d_nonneg [OF m0] m100
    have fm: "list_all is_digit (fmt_02d m)" "decimal (fmt_02d m) = m" "length (fmt_02d m) = 2"
      by simp_all
    from fmt_02d_nonneg [OF r0] r100
    have fr: "list_all is_digit (fmt_02d r)" "decimal (fmt_02d r) = r" "length (fmt_02d r) = 2"
      by simp_all
    show ?thesis
      unfolding Let_def s_def [symmetric] h_def [symmetric] m_def [symmetric] r_def [symmetric]
      by (intro conjI) (fact tc dec h0 m0 m59 r0 r59 fh fm fr)+
  qed
  have d: ?D if q: "0 < q" and f: "0 \<le> f" and b: "of_int f / q < 2 ^ 53"
  proof -
    from q f have "0 \<le> of_int f / q" by simp
    with b have "\<bar>of_int f / q\<bar> < 2 ^ 53" by simp
    from fl_between [OF this] obtain z where z: "fl (of_int f / q) = Fin z"
      and lo: "of_int \<lfloor>of_int f / q\<rfloor> \<le> z" and hi: "z \<le> of_int \<lceil>of_int f / q\<rceil>"
      by blast
    from floor_between [OF lo hi] z show ?thesis by blast
  qed
  have e: ?E if q: "0 < q" and f: "0 \<le> f" and f53: "f < 2 ^ 53"
    and y: "fl (of_int f / q) = PInf"
  proof -
    from f f53 have "\<bar>f\<bar> < 2 ^ 53" by simp
    with q have "timecode (Some f) (Fin q) = seconds_to_hhmmss_floor PInf"
      unfolding y [symmetric] by (rule timecode_Fin)
    then show ?thesis by (simp add: seconds_to_hhmmss_floor_def py_floor_float_def)
  qed
  have k: ?K if "0 < q" and "0 \<le> f"
  proof -
    from that have "0 \<le> of_int f / q" by simp
    then show ?thesis by (rule fl_nonneg_cases)
  qed
  have g0: ?F if "0 \<le> f" and "f < 2 ^ 53"
  proof -
    from that have "\<bar>f\<bar> < 2 ^ 53" by simp
    then show ?thesis
      by (simp add: timecode_def float_of_int_def fl_of_int fdiv_def
          seconds_to_hhmmss_floor_def)
  qed
  have g: ?G if "x < 0"
    using that by (simp add: seconds_to_hhmmss_floor_def)
  have h1: ?H1 by (simp add: seconds_to_hhmmss_floor_def)
  have h2: ?H2 by (simp add: seconds_to_hhmmss_floor_def py_floor_float_def)
  have h3: ?H3 by (simp add: seconds_to_hhmmss_floor_def py_floor_float_def)
  have e1: ?E1
    by (simp add: timecode_def float_of_int_def fdiv_def fl_simps seconds_to_hhmmss_floor_def
        py_floor_float_def fmt_02d_def zero_pad_def digits_of_nat.simps)
  have e2: ?E2
    by (simp add: timecode_def float_of_int_def fdiv_def fl_simps seconds_to_hhmmss_floor_def
        py_floor_float_def fmt_02d_def zero_pad_def digits_of_nat.simps)
  show ?thesis
  proof (intro conjI impI)
    show ?A by (rule a)
    show ?B if "\<not> f_lt (Fin 0) fps" using that by (rule b)
    show ?C if "0 < q \<and> 0 \<le> f \<and> f < 2 ^ 53 \<and> fl (of_int f / q) = Fin y"
    proof -
      from that have "0 < q" "0 \<le> f" "f < 2 ^ 53" "fl (of_int f / q) = Fin y" by simp_all
      then show ?thesis by (rule c)
    qed
    show ?D if "0 < q \<and> 0 \<le> f \<and> of_int f / q < 2 ^ 53"
    proof -
      from that have "0 < q" "0 \<le> f" "of_int f / q < 2 ^ 53" by simp_all
      then show ?thesis by (rule d)
    qed
    show ?E if "0 < q \<and> 0 \<le> f \<and> f < 2 ^ 53 \<and> fl (of_int f / q) = PInf"
    proof -
      from that have "0 < q" "0 \<le> f" "f < 2 ^ 53" "fl (of_int f / q) = PInf" by simp_all
      then show ?thesis by (rule e)
    qed
    show ?K if "0 < q \<and> 0 \<le> f"
    proof -
      from that have "0 < q" "0 \<le> f" by simp_all
      then show ?thesis by (rule k)
    qed
    show ?F if "0 \<le> f \<and> f < 2 ^ 53"
    proof -
      from that have "0 \<le> f" "f < 2 ^ 53" by simp_all
      then show ?thesis by (rule g0)
    qed
    show ?G if "x < 0" using that by (rule g)
    show ?H1 by (rule h1)
    show ?H2 by (rule h2)
    show ?H3 by (rule h3)
    show ?E1 by (rule e1)
    show ?E2 by (rule e2)
  qed
qed

text \<open>
  The theorem at the rate 23.976023976023978 and frame 72000, where the division rounds
  up to 3003.0; at the rate 0.001 and frame 99999999, where it rounds up to
  99999999000.0 and the hours take eight digits; at the rate 0.0 and at NaN; at the rate
  \<open>2 powi (- 1000)\<close>, where the quotient overflows; at an infinite rate; at \<open>-3.0\<close>
  seconds.
\<close>

theorem timecode_contract_witness:
  "\<not> f_lt (Fin 0) (Fin 0) \<and> timecode (Some 10) (Fin 0) = Inr []
   \<and> \<not> f_lt (Fin 0) NaN \<and> timecode (Some 10) NaN = Inr []
   \<and> 0 < double_ntsc \<and> fl (of_int 72000 / double_ntsc) = Fin 3003
   \<and> timecode (Some 72000) (Fin double_ntsc) = Inr ''00:50:03''
   \<and> of_int 72000 / double_ntsc < 2 ^ 53
   \<and> \<lfloor>of_int 72000 / double_ntsc\<rfloor> = 3002
   \<and> (\<exists>z. fl (of_int 72000 / double_ntsc) = Fin z
          \<and> \<lfloor>z\<rfloor> = \<lfloor>of_int 72000 / double_ntsc\<rfloor> + 1 \<and> z = of_int \<lfloor>z\<rfloor>)
   \<and> 0 < double_0_001 \<and> fl (of_int 99999999 / double_0_001) = Fin 99999999000
   \<and> timecode (Some 99999999) (Fin double_0_001) = Inr ''27777777:30:00''
   \<and> \<lfloor>of_int 99999999 / double_0_001\<rfloor> = 99999998999
   \<and> (0::rat) < 2 powi (- 1000) \<and> fl (of_int 99999999 / 2 powi (- 1000)) = PInf
   \<and> timecode (Some 99999999) (Fin (2 powi (- 1000))) = Inl OverflowError
   \<and> timecode (Some 99999999) PInf = Inr ''00:00:00''
   \<and> seconds_to_hhmmss_floor (Fin (- 3)) = Inr ''00:00:00''"
proof -
  have n0: "\<not> f_lt (Fin 0) (Fin 0)" and n1: "\<not> f_lt (Fin 0) NaN" by simp_all
  from n0 timecode_contract [of "Fin 0" "Some 10" 1 0 0 0]
  have 1: "timecode (Some 10) (Fin 0) = Inr []" by blast
  from n1 timecode_contract [of NaN "Some 10" 1 0 0 0]
  have 2: "timecode (Some 10) NaN = Inr []" by blast
  have p: "0 < double_ntsc" by (simp add: double_ntsc_def)
  have y: "fl (of_int 72000 / double_ntsc) = Fin 3003" using fl_ntsc_72000 by simp
  have b: "of_int 72000 / double_ntsc < 2 ^ 53" by (simp add: double_ntsc_def)
  have fx: "\<lfloor>of_int 72000 / double_ntsc\<rfloor> = 3002" by (simp add: double_ntsc_def)
  note t = timecode_contract [of "Fin 25" None double_ntsc 72000 3003 "- 3"]
  have h3: "0 < double_ntsc \<and> (0::int) \<le> 72000 \<and> (72000::int) < 2 ^ 53
      \<and> fl (of_int 72000 / double_ntsc) = Fin 3003"
    using p y by simp
  from h3 t
  have "let s = \<lfloor>3003 :: rat\<rfloor>; h = s div 3600; m = s mod 3600 div 60; r = s mod 60
        in timecode (Some 72000) (Fin double_ntsc)
             = Inr (fmt_02d h @ '':'' @ fmt_02d m @ '':'' @ fmt_02d r)"
    unfolding Let_def by blast
  then have 3: "timecode (Some 72000) (Fin double_ntsc) = Inr ''00:50:03''"
    by (simp add: Let_def fmt_02d_def zero_pad_def digits_of_nat.simps)
  have h4: "0 < double_ntsc \<and> (0::int) \<le> 72000 \<and> of_int 72000 / double_ntsc < 2 ^ 53"
    using p b by simp
  from h4 t obtain z where z: "fl (of_int 72000 / double_ntsc) = Fin z"
    and zc: "\<lfloor>z\<rfloor> = \<lfloor>of_int 72000 / double_ntsc\<rfloor>
      \<or> (\<lfloor>z\<rfloor> = \<lfloor>of_int 72000 / double_ntsc\<rfloor> + 1 \<and> z = of_int \<lfloor>z\<rfloor>)"
    by blast
  from z y have "z = 3003" by simp
  with zc fx have "\<lfloor>z\<rfloor> = \<lfloor>of_int 72000 / double_ntsc\<rfloor> + 1 \<and> z = of_int \<lfloor>z\<rfloor>" by simp
  with z have 4: "\<exists>z. fl (of_int 72000 / double_ntsc) = Fin z
      \<and> \<lfloor>z\<rfloor> = \<lfloor>of_int 72000 / double_ntsc\<rfloor> + 1 \<and> z = of_int \<lfloor>z\<rfloor>"
    by blast
  have pm: "0 < double_0_001" by (simp add: double_0_001_def)
  have ym: "fl (of_int 99999999 / double_0_001) = Fin 99999999000"
    using fl_ms_99999999 by simp
  have fm: "\<lfloor>of_int 99999999 / double_0_001\<rfloor> = 99999998999"
    by (simp add: double_0_001_def)
  have hm: "0 < double_0_001 \<and> (0::int) \<le> 99999999 \<and> (99999999::int) < 2 ^ 53
      \<and> fl (of_int 99999999 / double_0_001) = Fin 99999999000"
    using pm ym by simp
  from hm timecode_contract [of "Fin 25" None double_0_001 99999999 99999999000 "- 3"]
  have "let s = \<lfloor>99999999000 :: rat\<rfloor>; h = s div 3600; m = s mod 3600 div 60; r = s mod 60
        in timecode (Some 99999999) (Fin double_0_001)
             = Inr (fmt_02d h @ '':'' @ fmt_02d m @ '':'' @ fmt_02d r)"
    unfolding Let_def by blast
  then have 8: "timecode (Some 99999999) (Fin double_0_001) = Inr ''27777777:30:00''"
    by (simp add: Let_def fmt_02d_def zero_pad_def digits_of_nat.simps)
  have q: "(0::rat) < 2 powi (- 1000)" by simp
  have o: "fl (of_int 99999999 / 2 powi (- 1000)) = PInf" using fl_tiny_rate by simp
  have h5: "(0::rat) < 2 powi (- 1000) \<and> (0::int) \<le> 99999999 \<and> (99999999::int) < 2 ^ 53
      \<and> fl (of_int 99999999 / 2 powi (- 1000)) = PInf"
    using q o by simp
  from h5 timecode_contract [of "Fin 25" None "2 powi (- 1000)" 99999999 0 "- 3"]
  have 5: "timecode (Some 99999999) (Fin (2 powi (- 1000))) = Inl OverflowError" by blast
  have h6: "(0::int) \<le> 99999999 \<and> (99999999::int) < 2 ^ 53" by simp
  from h6 timecode_contract [of "Fin 25" None "2 powi (- 1000)" 99999999 0 "- 3"]
  have 6: "timecode (Some 99999999) PInf = Inr ''00:00:00''" by blast
  have "(- 3 :: rat) < 0" by simp
  with t have 7: "seconds_to_hhmmss_floor (Fin (- 3)) = Inr ''00:00:00''" by blast
  from n0 n1 1 2 p y 3 b fx 4 pm ym 8 fm q o 5 6 7 show ?thesis by blast
qed

subsection \<open>Layout engine: the rows of the workbook\<close>

lemma py_max_default_Max: "xs \<noteq> [] \<Longrightarrow> py_max_default d xs = Max (set xs)"
proof (cases xs)
  case Nil
  then show "xs \<noteq> [] \<Longrightarrow> ?thesis" by simp
next
  case (Cons y ys)
  have "foldl max y ys = fold max ys y"
    by (simp add: foldl_conv_fold max.commute)
  also have "\<dots> = Max (set (y # ys))" by (rule Max.set_eq_fold [symmetric])
  finally show ?thesis using Cons by (simp add: py_max_default_def)
qed

lemma preprocess_Inr:
  assumes "preprocess e up dir tmp sc imgs = Inr ps"
  shows "length ps = length imgs"
    and "i < length imgs \<Longrightarrow> preprocess_image e up dir tmp sc (imgs ! i) = Inr (ps ! i)"
  using map_err_Inr [OF assms [unfolded preprocess_def]] by simp_all

text \<open>In physical mode the first loop raises nothing: line 156 catches every exception.\<close>

lemma preprocess_image_physical:
  "\<exists>p. preprocess_image e True dir tmp sc name = Inr p"
  by (simp add: preprocess_image_def Let_def split: sum.splits prod.splits)

lemma preprocess_physical_total: "\<exists>ps. preprocess e True dir tmp sc imgs = Inr ps"
  unfolding preprocess_def by (rule map_err_total) (rule preprocess_image_physical)

lemma export_workbook_Inr:
  assumes "export_workbook e a imgs = Inr wb"
  shows "\<exists>ps. preprocess e (arg_resize a = Physical \<and> pil_available e) (arg_images_dir a)
                 (mkdtemp e) (scale_of (arg_scale a)) imgs = Inr ps
     \<and> pixels_to_col_width (column_pixels ps (arg_pad_x a)) = Inr (col_a_width wb)
     \<and> length (rows wb) = length imgs
     \<and> (\<forall>i<length imgs.
          write_row e (arg_resize a = Physical \<and> pil_available e) (do_center_of (arg_center a))
            (scale_of (arg_scale a)) (fps_of (arg_fps a)) (column_pixels ps (arg_pad_x a))
            (arg_pad_y a) (arg_images_dir a) (i + 1) (imgs ! i) (ps ! i)
          = Inr (rows wb ! i))"
proof -
  define up where "up = (arg_resize a = Physical \<and> pil_available e)"
  define col where "col = (\<lambda>ps. column_pixels ps (arg_pad_x a))"
  define wr where "wr = (\<lambda>ps (t :: nat \<times> string \<times> processed_image).
      case t of (i, name, p) \<Rightarrow>
        write_row e up (do_center_of (arg_center a)) (scale_of (arg_scale a))
          (fps_of (arg_fps a)) (col ps) (arg_pad_y a) (arg_images_dir a) (i + 1) name p)"
  from assms obtain ps cw rs where
    ps: "preprocess e up (arg_images_dir a) (mkdtemp e) (scale_of (arg_scale a)) imgs = Inr ps"
    and cw: "pixels_to_col_width (col ps) = Inr cw"
    and rs: "map_err (wr ps) (zip [0..<length imgs] (zip imgs ps)) = Inr rs"
    and wb: "wb = \<lparr>col_a_width = cw, col_b_width = 16,
                   header_cells = (''Image'', ''Timecode''), rows = rs\<rparr>"
    unfolding export_workbook_def Let_def up_def [symmetric] col_def wr_def
    by (auto simp: and_then_eq_Inr)
  from preprocess_Inr(1) [OF ps] have len: "length ps = length imgs" .
  from map_err_Inr [OF rs] len
  have l: "length rs = length imgs"
    and n: "\<forall>i<length imgs. wr ps (zip [0..<length imgs] (zip imgs ps) ! i) = Inr (rs ! i)"
    by simp_all
  have r: "write_row e up (do_center_of (arg_center a)) (scale_of (arg_scale a))
        (fps_of (arg_fps a)) (col ps) (arg_pad_y a) (arg_images_dir a) (i + 1) (imgs ! i)
        (ps ! i) = Inr (rs ! i)" if "i < length imgs" for i
    using n [rule_format, OF that] that len by (simp add: wr_def)
  show ?thesis
    unfolding up_def [symmetric]
    using ps cw l r by (auto simp: wb col_def intro!: exI [of _ ps])
qed

lemma write_row_Inr:
  assumes "write_row e up dc sc fps col pady dir n name p = Inr r"
  shows "\<exists>w h tc pts xo yo.
     layout_size e up sc p = Inr (w, h)
     \<and> timecode (parse_frame_from_filename name) fps = Inr tc
     \<and> pixels_to_row_points (h + 2 * pady) = Inr pts
     \<and> center_offsets dc col (h + 2 * pady) w h = Inr (xo, yo)
     \<and> r = \<lparr>row_number = n, row_points = pts, row_centered = dc, layout_w = w, layout_h = h,
            insert_options = \<lparr>x_offset = xo, y_offset = yo,
                               x_scale = (if up then None else Some sc),
                               y_scale = (if up then None else Some sc)\<rparr>,
            cell_a = (if insert_image_ok e (fst p) then Inserted (fst p)
                      else PathText (path_join dir name)),
            cell_b = tc\<rparr>"
proof -
  from assms obtain wh where wh: "layout_size e up sc p = Inr wh"
    unfolding write_row_def Let_def by (cases "layout_size e up sc p") simp_all
  obtain w h where whv: "wh = (w, h)" by (cases wh)
  from assms wh whv obtain tc where tc: "timecode (parse_frame_from_filename name) fps = Inr tc"
    unfolding write_row_def Let_def
    by (cases "timecode (parse_frame_from_filename name) fps") simp_all
  from assms wh whv tc obtain pts where pts: "pixels_to_row_points (h + 2 * pady) = Inr pts"
    unfolding write_row_def Let_def
    by (cases "pixels_to_row_points (h + 2 * pady)") simp_all
  from assms wh whv tc pts obtain xy where
    xy: "center_offsets dc col (h + 2 * pady) w h = Inr xy"
    unfolding write_row_def Let_def
    by (cases "center_offsets dc col (h + 2 * pady) w h") simp_all
  obtain xo yo where xyv: "xy = (xo, yo)" by (cases xy)
  from assms wh whv tc pts xy xyv
  have "r = \<lparr>row_number = n, row_points = pts, row_centered = dc, layout_w = w, layout_h = h,
            insert_options = \<lparr>x_offset = xo, y_offset = yo,
                               x_scale = (if up then None else Some sc),
                               y_scale = (if up then None else Some sc)\<rparr>,
            cell_a = (if insert_image_ok e (fst p) then Inserted (fst p)
                      else PathText (path_join dir name)),
            cell_b = tc\<rparr>"
    unfolding write_row_def Let_def by simp
  with wh whv tc pts xy xyv show ?thesis by blast
qed

lemma layout_size_preprocess:
  assumes "preprocess_image e up dir tmp sc name = Inr p"
  shows "layout_size e up sc p = Inr (snd p)"
proof (cases up)
  case True
  then show ?thesis by (cases p) (simp add: layout_size_def)
next
  case False
  obtain ow oh where g: "get_image_size e (path_join dir name) = (ow, oh)"
    by (cases "get_image_size e (path_join dir name)")
  from assms False g obtain sw sh where
    sw: "round_scaled (py_or0 ow) sc = Inr sw" and sh: "round_scaled (py_or0 oh) sc = Inr sh"
    and p: "p = (path_join dir name, sw, sh)"
    by (auto simp: preprocess_image_def Let_def and_then_eq_Inr)
  show ?thesis
    using False g sw sh
    by (cases ow; cases oh) (simp_all add: p layout_size_def py_or0_def)
qed

lemma max0_py_int: "max 0 (py_int x) = max 0 \<lfloor>x\<rfloor>"
proof (cases "0 \<le> x")
  case True
  then show ?thesis by (simp add: py_int_def)
next
  case False
  then have "x < 0" by simp
  then have "\<lceil>x\<rceil> \<le> 0" "\<lfloor>x\<rfloor> \<le> 0" by (simp_all add: ceiling_le_iff floor_le_iff)
  with False show ?thesis by (simp add: py_int_def)
qed

lemma floor_half: "\<lfloor>of_int d / (2::rat)\<rfloor> = d div 2"
  using floor_divide_of_int_eq [of d 2, where ?'a = rat] by simp

text \<open>
  Below \<open>2 ^ 53\<close> the true division by 2 is exact, and the truncation under \<open>max 0\<close> is the
  floor.
\<close>

lemma half_gap_exact:
  assumes "\<bar>a - b\<bar> < 2 ^ 53"
  shows "half_gap a b = Inr (max 0 ((a - b) div 2))"
proof -
  have "fl (of_int (a - b) / 2) = Fin (of_int (a - b) / 2)"
    using fl_dyadic [OF assms, of 1] by simp
  then have "int_truediv (a - b) 2 = Inr (Fin (of_int (a - b) / 2))"
    by (simp add: int_truediv_def del: of_int_diff)
  then show ?thesis
    by (simp add: half_gap_def py_int_float_def max0_py_int floor_half del: of_int_diff)
qed

lemma half_gap_nonneg: "half_gap a b = Inr n \<Longrightarrow> 0 \<le> n"
  by (auto simp: half_gap_def and_then_eq_Inr)

lemma spec_offset_div: "spec_offset a b = max 0 ((a - b) div 2)"
  by (simp add: spec_offset_def floor_half del: of_int_diff)

lemma center_offsets_True:
  "center_offsets True col rowpx w h = Inr (xo, yo) \<longleftrightarrow>
     (\<exists>x y. half_gap col w = Inr x \<and> half_gap rowpx h = Inr y \<and> xo = Some x \<and> yo = Some y)"
  by (auto simp: center_offsets_def and_then_eq_Inr)

lemma center_offsets_False: "center_offsets False col rowpx w h = Inr (None, None)"
  by (simp add: center_offsets_def)

lemma fl_zero: "fl 0 = Fin 0"
  by (simp add: fl_def)

lemma fl_c2_half: "fl 9007199254740993 = Fin 9007199254740992"
  by (rule trans [OF fl_eval [of 53]]) (simp_all add: py_round_def Let_def)


subsection \<open>The sample runs, evaluated\<close>

text \<open>The images of the sample run are what the listing of its directory yields.\<close>

lemma example_listing: "list_images_sorted example_env ''/shots'' = Inr example_imgs"
  by code_simp

lemma corrupt_listing: "list_images_sorted corrupt_env ''/shots'' = Inr example_imgs"
  using example_listing by (simp add: list_images_sorted_def corrupt_env_def)

lemma example_frames:
  "parse_frame_from_filename ''f00000025.jpg'' = Some 25"
  "parse_frame_from_filename ''f00000750.png'' = Some 750"
  "parse_frame_from_filename ''f00090000.png'' = Some 90000"
  by code_simp+

lemma fl_1919_7: "fl (1919 / 7) = Fin (4822772145604901 / 17592186044416)"
  by (rule trans [OF fl_eval [of 8]]) (simp_all add: py_round_def Let_def)

lemma fl_159_7: "fl (159 / 7) = Fin (3196751521213879 / 140737488355328)"
  by (rule trans [OF fl_eval [of 4]]) (simp_all add: py_round_def Let_def)

lemma double_0_15_exact: "fl double_0_15 = Fin double_0_15"
  unfolding double_0_15_def using fl_dyadic [of 5404319552844595 55] by simp

lemma double_0_15_nonzero: "double_0_15 \<noteq> 0"
  by (simp add: double_0_15_def)

lemma fl_scaled_640: "fl (640 * double_0_15) = Fin 96"
  unfolding double_0_15_def
  by (rule trans [OF fl_eval [of 6]]) (simp_all add: py_round_def Let_def)

lemma fl_scaled_480: "fl (480 * double_0_15) = Fin 72"
  unfolding double_0_15_def
  by (rule trans [OF fl_eval [of 6]]) (simp_all add: py_round_def Let_def)

lemma fl_scaled_1920: "fl (1920 * double_0_15) = Fin 288"
  unfolding double_0_15_def
  by (rule trans [OF fl_eval [of 8]]) (simp_all add: py_round_def Let_def)

lemma fl_scaled_1080: "fl (1080 * double_0_15) = Fin 162"
  unfolding double_0_15_def
  by (rule trans [OF fl_eval [of 7]]) (simp_all add: py_round_def Let_def)

lemma fl_scaled_600: "fl (600 * double_0_15) = Fin 90"
  unfolding double_0_15_def
  by (rule trans [OF fl_eval [of 6]]) (simp_all add: py_round_def Let_def)

lemma fl_scaled_450: "fl (450 * double_0_15) = Fin (135 / 2)"
  unfolding double_0_15_def
  by (rule trans [OF fl_eval [of 6]]) (simp_all add: py_round_def Let_def)

lemmas fl_scaled =
  fl_scaled_640 fl_scaled_480 fl_scaled_1920 fl_scaled_1080 fl_scaled_600 fl_scaled_450

lemmas example_simps =
  example_env_def corrupt_env_def example_args_def example_imgs_def preprocess_def
  preprocess_image_def physical_resize_image_def round_scaled_def float_of_int_def
  py_round_float_def get_image_size_def path_join_def py_round_def py_or0_def scale_of_def
  fps_of_def column_pixels_def py_max_default_def Let_def fl_simps fl_zero

lemmas row_simps =
  write_row_def layout_size_def timecode_def seconds_to_hhmmss_floor_def py_floor_float_def
  fdiv_def fmt_02d_def zero_pad_def digits_of_nat.simps pixels_to_row_points_def
  py_max_float_def center_offsets_def half_gap_def int_truediv_def py_int_float_def py_int_def
  round_scaled_def float_of_int_def py_round_float_def py_round_def get_image_size_def
  example_frames fl_simps fl_zero

lemma example_facts:
  "arg_resize (example_args mode) = mode"
  "pil_available example_env"
  "arg_images_dir (example_args mode) = ''/shots''"
  "mkdtemp example_env = ''/tmp/xlsx_gallery_0''"
  "scale_of (arg_scale (example_args mode)) = Fin (1 / 4)"
  "fps_of (arg_fps (example_args mode)) = Fin 25"
  "arg_pad_x (example_args mode) = 2"
  "arg_pad_y (example_args mode) = 3"
  "do_center_of (arg_center (example_args mode))"
  "arg_out (example_args mode) = ''/out/gallery.xlsx''"
  "length example_imgs = 3"
  by (simp_all add: example_env_def example_args_def scale_of_def fps_of_def do_center_of_def
      py_strip_def py_isspace_def example_imgs_def)

lemma corrupt_facts:
  "pil_available corrupt_env"
  "mkdtemp corrupt_env = ''/tmp/xlsx_gallery_0''"
  "insert_image_ok corrupt_env p = (p \<noteq> ''/shots/f00000750.png'')"
  "image_open corrupt_env ''/shots/f00000750.png'' = None"
  "makedirs_error corrupt_env d = None"
  "mkdtemp_error corrupt_env = None"
  "workbook_close_error corrupt_env d = None"
  by (simp_all add: corrupt_env_def example_env_def)

lemma scale_only_facts:
  "arg_resize scale_only_args = ScaleOnly"
  "arg_images_dir scale_only_args = ''/shots''"
  "scale_of (arg_scale scale_only_args) = Fin double_0_15"
  "fps_of (arg_fps scale_only_args) = Fin 25"
  "arg_pad_x scale_only_args = 2"
  "arg_pad_y scale_only_args = 0"
  "do_center_of (arg_center scale_only_args)"
  by (simp_all add: scale_only_args_def example_args_def scale_of_def fps_of_def
      do_center_of_def py_strip_def py_isspace_def double_0_15_nonzero)

lemma example_env_facts:
  "insert_image_ok example_env p = (p \<noteq> ''/shots/f00000750.png'')"
  "image_open example_env ''/shots/f00000750.png'' = Some (1920, 1080)"
  "makedirs_error example_env d = None"
  "mkdtemp_error example_env = None"
  "workbook_close_error example_env d = None"
  by (simp_all add: example_env_def)

lemma ex_pre_phys:
  "preprocess example_env True ''/shots'' ''/tmp/xlsx_gallery_0'' (Fin (1 / 4)) example_imgs
     = Inr [(''/tmp/xlsx_gallery_0/f00000025.jpg'', 160, 120),
            (''/shots/f00000750.png'', 1920, 1080),
            (''/tmp/xlsx_gallery_0/f00090000.png'', 150, 112)]"
  by (simp add: example_simps)

lemma ex_pre_corrupt:
  "preprocess corrupt_env True ''/shots'' ''/tmp/xlsx_gallery_0'' (Fin (1 / 4)) example_imgs
     = Inr [(''/tmp/xlsx_gallery_0/f00000025.jpg'', 160, 120),
            (''/shots/f00000750.png'', 0, 0),
            (''/tmp/xlsx_gallery_0/f00090000.png'', 150, 112)]"
  by (simp add: example_simps)

lemma ex_pre_scale_only:
  "preprocess example_env False ''/shots'' ''/tmp/xlsx_gallery_0'' (Fin double_0_15)
     example_imgs
     = Inr [(''/shots/f00000025.jpg'', 96, 72),
            (''/shots/f00000750.png'', 288, 162),
            (''/shots/f00090000.png'', 90, 68)]"
  by (simp add: example_simps fl_scaled)

lemma ex_zip:
  "zip [0..<length example_imgs] (zip example_imgs [p0, p1, p2])
     = [(0, ''f00000025.jpg'', p0), (1, ''f00000750.png'', p1), (2, ''f00090000.png'', p2)]"
  by (simp add: example_imgs_def upt_rec)

text \<open>
  The physical run: the second image is kept at 1920 by 1080 and sets the column; the
  third is resized to 150 by 112, the height 112.5 being a tie that goes to the even
  integer.
\<close>

lemma ex_export_phys:
  "export_workbook example_env (example_args Physical) example_imgs =
    Inr \<lparr>col_a_width = Fin (4822772145604901 / 17592186044416),
        col_b_width = 16, header_cells = (''Image'', ''Timecode''),
        rows =
          [\<lparr>row_number = 1, row_points = Fin (189 / 2), row_centered = True,
              layout_w = 160, layout_h = 120,
              insert_options =
                \<lparr>x_offset = Some 882, y_offset = Some 3, x_scale = None,
                   y_scale = None\<rparr>,
              cell_a = Inserted ''/tmp/xlsx_gallery_0/f00000025.jpg'',
              cell_b = ''00:00:01''\<rparr>,
           \<lparr>row_number = 2, row_points = Fin (1629 / 2),
              row_centered = True, layout_w = 1920, layout_h = 1080,
              insert_options =
                \<lparr>x_offset = Some 2, y_offset = Some 3, x_scale = None,
                   y_scale = None\<rparr>,
              cell_a = PathText ''/shots/f00000750.png'',
              cell_b = ''00:00:30''\<rparr>,
           \<lparr>row_number = 3, row_points = Fin (177 / 2), row_centered = True,
              layout_w = 150, layout_h = 112,
              insert_options =
                \<lparr>x_offset = Some 887, y_offset = Some 3, x_scale = None,
                   y_scale = None\<rparr>,
              cell_a = Inserted ''/tmp/xlsx_gallery_0/f00090000.png'',
              cell_b = ''01:00:00''\<rparr>]\<rparr>"
proof -
  have up: "(arg_resize (example_args Physical) = Physical \<and> pil_available example_env) = True"
    by (simp add: example_facts)
  show ?thesis
    unfolding export_workbook_def Let_def up example_facts(3-8)
    by (simp only: ex_pre_phys and_then_Inr ex_zip)
      (simp add: example_facts column_pixels_def py_max_default_def pixels_to_col_width_def
        fl_1919_7 row_simps example_env_facts path_join_def)
qed

text \<open>The same run when the second image cannot be opened: it is recorded as 0 by 0.\<close>

lemma ex_export_corrupt:
  "export_workbook corrupt_env (example_args Physical) example_imgs =
    Inr \<lparr>col_a_width = Fin (3196751521213879 / 140737488355328),
        col_b_width = 16, header_cells = (''Image'', ''Timecode''),
        rows =
          [\<lparr>row_number = 1, row_points = Fin (189 / 2), row_centered = True,
              layout_w = 160, layout_h = 120,
              insert_options =
                \<lparr>x_offset = Some 2, y_offset = Some 3, x_scale = None,
                   y_scale = None\<rparr>,
              cell_a = Inserted ''/tmp/xlsx_gallery_0/f00000025.jpg'',
              cell_b = ''00:00:01''\<rparr>,
           \<lparr>row_number = 2, row_points = Fin (9 / 2), row_centered = True,
              layout_w = 0, layout_h = 0,
              insert_options =
                \<lparr>x_offset = Some 82, y_offset = Some 3, x_scale = None,
                   y_scale = None\<rparr>,
              cell_a = PathText ''/shots/f00000750.png'',
              cell_b = ''00:00:30''\<rparr>,
           \<lparr>row_number = 3, row_points = Fin (177 / 2), row_centered = True,
              layout_w = 150, layout_h = 112,
              insert_options =
                \<lparr>x_offset = Some 7, y_offset = Some 3, x_scale = None,
                   y_scale = None\<rparr>,
              cell_a = Inserted ''/tmp/xlsx_gallery_0/f00090000.png'',
              cell_b = ''01:00:00''\<rparr>]\<rparr>"
proof -
  have up: "(arg_resize (example_args Physical) = Physical \<and> pil_available corrupt_env) = True"
    by (simp add: example_facts corrupt_facts)
  show ?thesis
    unfolding export_workbook_def Let_def up example_facts(3,5-8) corrupt_facts(2)
    by (simp only: ex_pre_corrupt and_then_Inr ex_zip)
      (simp add: example_facts column_pixels_def py_max_default_def pixels_to_col_width_def
        fl_159_7 row_simps corrupt_facts path_join_def)
qed

text \<open>
  The scale-only run at 0.15: the third image, 450 pixels high, is laid out 68 pixels
  high, since \<^verbatim>\<open>450 * 0.15\<close> is the double 67.5 and the tie goes to the even integer.
\<close>

lemma ex_export_scale_only:
  "export_workbook example_env scale_only_args example_imgs =
    Inr \<lparr>col_a_width = Fin 41, col_b_width = 16,
        header_cells = (''Image'', ''Timecode''),
        rows =
          [\<lparr>row_number = 1, row_points = Fin 54, row_centered = True,
              layout_w = 96, layout_h = 72,
              insert_options =
                \<lparr>x_offset = Some 98, y_offset = Some 0,
                   x_scale = Some (Fin double_0_15), y_scale = Some (Fin double_0_15)\<rparr>,
              cell_a = Inserted ''/shots/f00000025.jpg'',
              cell_b = ''00:00:01''\<rparr>,
           \<lparr>row_number = 2, row_points = Fin (243 / 2), row_centered = True,
              layout_w = 288, layout_h = 162,
              insert_options =
                \<lparr>x_offset = Some 2, y_offset = Some 0,
                   x_scale = Some (Fin double_0_15), y_scale = Some (Fin double_0_15)\<rparr>,
              cell_a = PathText ''/shots/f00000750.png'',
              cell_b = ''00:00:30''\<rparr>,
           \<lparr>row_number = 3, row_points = Fin 51, row_centered = True,
              layout_w = 90, layout_h = 68,
              insert_options =
                \<lparr>x_offset = Some 101, y_offset = Some 0,
                   x_scale = Some (Fin double_0_15), y_scale = Some (Fin double_0_15)\<rparr>,
              cell_a = Inserted ''/shots/f00090000.png'',
              cell_b = ''01:00:00''\<rparr>]\<rparr>"
proof -
  have up: "(arg_resize scale_only_args = Physical \<and> pil_available example_env) = False"
    by (simp add: scale_only_facts)
  have io: "image_open example_env ''/shots/f00000025.jpg'' = Some (640, 480)"
    "image_open example_env ''/shots/f00000750.png'' = Some (1920, 1080)"
    "image_open example_env ''/shots/f00090000.png'' = Some (600, 450)"
    by (simp_all add: example_env_def)
  show ?thesis
    unfolding export_workbook_def Let_def up scale_only_facts(2-6) example_facts(4)
    by (simp only: ex_pre_scale_only and_then_Inr ex_zip)
      (simp add: scale_only_facts example_facts column_pixels_def py_max_default_def
        pixels_to_col_width_def row_simps fl_scaled example_env_facts io path_join_def)
qed

subsection \<open>Layout engine: column width, offsets, failures\<close>

text \<open>
  Claim C2 as stated fails for gaps of \<open>2 ^ 53\<close> pixels and more: the source halves by a
  true division, which yields a double, and then truncates. For the gap
  18014398509481986 (a horizontal padding of \<open>2 ^ 53 + 1\<close> around the widest image) the
  half 9007199254740993 is no double; the source gets 9007199254740992, the floor of
  the half is 9007199254740993.
\<close>

theorem centering_offset_not_floor:
  "center_offsets True 18014398509481986 0 0 0 = Inr (Some 9007199254740992, Some 0)
   \<and> spec_offset 18014398509481986 0 = 9007199254740993
   \<and> spec_offset 0 0 = 0
   \<and> (\<exists>r. write_row example_env True True (Fin (1 / 4)) (Fin 25) 18014398509482146 3
            ''/shots'' 1 ''f00000025.jpg'' (''/tmp/xlsx_gallery_0/f00000025.jpg'', 160, 120)
          = Inr r
        \<and> layout_w r = 160
        \<and> x_offset (insert_options r) = Some 9007199254740992
        \<and> spec_offset 18014398509482146 160 = 9007199254740993)"
proof -
  have c: "center_offsets True 18014398509481986 0 0 0
      = Inr (Some 9007199254740992, Some 0)"
    by (simp add: center_offsets_def half_gap_def int_truediv_def py_int_float_def py_int_def
        fl_c2_half fl_zero)
  have s: "spec_offset 18014398509481986 0 = 9007199254740993" "spec_offset 0 0 = 0"
    "spec_offset 18014398509482146 160 = 9007199254740993"
    by (simp_all add: spec_offset_div)
  have r: "write_row example_env True True (Fin (1 / 4)) (Fin 25) 18014398509482146 3
        ''/shots'' 1 ''f00000025.jpg'' (''/tmp/xlsx_gallery_0/f00000025.jpg'', 160, 120)
      = Inr \<lparr>row_number = 1, row_points = Fin (189 / 2), row_centered = True,
              layout_w = 160, layout_h = 120,
              insert_options = \<lparr>x_offset = Some 9007199254740992, y_offset = Some 3,
                                 x_scale = None, y_scale = None\<rparr>,
              cell_a = Inserted ''/tmp/xlsx_gallery_0/f00000025.jpg'',
              cell_b = ''00:00:01''\<rparr>"
    by (simp add: row_simps fl_c2_half example_env_facts path_join_def)
  from c s r show ?thesis by simp
qed

text \<open>
  Claim C2, amended: for every row that is written, with \<open>w\<close> and \<open>h\<close> the size the image
  is laid out at and \<open>h + 2 pad_y\<close> the pixel height of the row: when centering is
  requested both offsets are present and not negative; the horizontal one is
  \<open>max 0 ((col - w) / 2)\<close> floored to an integer when \<open>col\<close> and \<open>w\<close> differ by less than
  \<open>2 ^ 53\<close>, and the vertical one is \<open>max 0 ((row_px - h) / 2)\<close> floored when the padding is
  below \<open>2 ^ 52\<close> in magnitude. When centering is not requested the source leaves both
  keys out, which xlsxwriter reads as 0. An image narrower than the column (by less
  than \<open>2 ^ 53\<close>) has the offset \<open>(col - w) div 2 \<ge> 0\<close>, and one as wide as the column has 0.
\<close>

theorem centering_offsets:
  assumes "write_row e up dc sc fps col pady dir n name p = Inr r"
  shows "(let w = layout_w r; h = layout_h r; row_px = h + 2 * pady;
              xo = x_offset (insert_options r); yo = y_offset (insert_options r)
          in (dc \<longrightarrow> (\<exists>x y. xo = Some x \<and> yo = Some y \<and> 0 \<le> x \<and> 0 \<le> y
                         \<and> half_gap col w = Inr x \<and> half_gap row_px h = Inr y))
             \<and> (dc \<and> \<bar>col - w\<bar> < 2 ^ 53 \<longrightarrow> xo = Some (spec_offset col w))
             \<and> (dc \<and> \<bar>pady\<bar> < 2 ^ 52 \<longrightarrow> yo = Some (spec_offset row_px h))
             \<and> (\<not> dc \<longrightarrow> xo = None \<and> yo = None \<and> xlsx_offset xo = 0 \<and> xlsx_offset yo = 0)
             \<and> (dc \<and> w < col \<and> col - w < 2 ^ 53 \<longrightarrow>
                  xlsx_offset xo = (col - w) div 2 \<and> 0 \<le> xlsx_offset xo)
             \<and> (dc \<and> w = col \<longrightarrow> xlsx_offset xo = 0)
             \<and> pixels_to_row_points row_px = Inr (row_points r))"
proof -
  from write_row_Inr [OF assms] obtain w h tc pts xo yo where
    pts: "pixels_to_row_points (h + 2 * pady) = Inr pts"
    and co: "center_offsets dc col (h + 2 * pady) w h = Inr (xo, yo)"
    and r: "r = \<lparr>row_number = n, row_points = pts, row_centered = dc, layout_w = w,
            layout_h = h,
            insert_options = \<lparr>x_offset = xo, y_offset = yo,
                               x_scale = (if up then None else Some sc),
                               y_scale = (if up then None else Some sc)\<rparr>,
            cell_a = (if insert_image_ok e (fst p) then Inserted (fst p)
                      else PathText (path_join dir name)),
            cell_b = tc\<rparr>"
    by blast
  have f: "layout_w r = w" "layout_h r = h" "x_offset (insert_options r) = xo"
    "y_offset (insert_options r) = yo" "row_points r = pts"
    by (simp_all add: r)
  show ?thesis
  proof (cases dc)
    case False
    with co have "xo = None" "yo = None" by (simp_all add: center_offsets_False)
    with False pts show ?thesis unfolding Let_def f by (simp add: xlsx_offset_def)
  next
    case True
    with co obtain x y where x: "half_gap col w = Inr x" and y: "half_gap (h + 2 * pady) h = Inr y"
      and xo: "xo = Some x" and yo: "yo = Some y"
      by (auto simp: center_offsets_True)
    from x y have nn: "0 \<le> x" "0 \<le> y" by (simp_all add: half_gap_nonneg)
    have a: "x = spec_offset col w" if "\<bar>col - w\<bar> < 2 ^ 53"
      using half_gap_exact [OF that] x by (simp add: spec_offset_div)
    have b: "y = spec_offset (h + 2 * pady) h" if "\<bar>pady\<bar> < 2 ^ 52"
    proof -
      from that have "\<bar>h + 2 * pady - h\<bar> < 2 ^ 53" by simp
      from half_gap_exact [OF this] y show ?thesis by (simp add: spec_offset_div)
    qed
    have c: "x = (col - w) div 2" if "w < col" "col - w < 2 ^ 53"
    proof -
      from that have "\<bar>col - w\<bar> < 2 ^ 53" by simp
      from a [OF this] that(1) show ?thesis by (simp add: spec_offset_div)
    qed
    have d: "x = 0" if "w = col"
    proof -
      from that have "\<bar>col - w\<bar> < 2 ^ 53" by simp
      from a [OF this] that show ?thesis by (simp add: spec_offset_div)
    qed
    show ?thesis
      unfolding Let_def f using True x y xo yo nn a b c d pts
      by (simp add: xlsx_offset_def)
  qed
qed

lemma ex_row_centered:
  "write_row example_env True True (Fin (1 / 4)) (Fin 25) 1924 3 ''/shots'' 1 ''f00000025.jpg''
     (''/tmp/xlsx_gallery_0/f00000025.jpg'', 160, 120)
   = Inr \<lparr>row_number = 1, row_points = Fin (189 / 2), row_centered = True,
           layout_w = 160, layout_h = 120,
           insert_options = \<lparr>x_offset = Some 882, y_offset = Some 3, x_scale = None,
                              y_scale = None\<rparr>,
           cell_a = Inserted ''/tmp/xlsx_gallery_0/f00000025.jpg'',
           cell_b = ''00:00:01''\<rparr>"
  by (simp add: row_simps example_env_facts path_join_def)

lemma ex_row_not_centered:
  "write_row example_env True False (Fin (1 / 4)) (Fin 25) 1924 3 ''/shots'' 1 ''f00000025.jpg''
     (''/tmp/xlsx_gallery_0/f00000025.jpg'', 160, 120)
   = Inr \<lparr>row_number = 1, row_points = Fin (189 / 2), row_centered = False,
           layout_w = 160, layout_h = 120,
           insert_options = \<lparr>x_offset = None, y_offset = None, x_scale = None,
                              y_scale = None\<rparr>,
           cell_a = Inserted ''/tmp/xlsx_gallery_0/f00000025.jpg'',
           cell_b = ''00:00:01''\<rparr>"
  by (simp add: row_simps example_env_facts path_join_def)

lemma ex_row_full_width:
  "write_row example_env True True (Fin (1 / 4)) (Fin 25) 160 3 ''/shots'' 1 ''f00000025.jpg''
     (''/tmp/xlsx_gallery_0/f00000025.jpg'', 160, 120)
   = Inr \<lparr>row_number = 1, row_points = Fin (189 / 2), row_centered = True,
           layout_w = 160, layout_h = 120,
           insert_options = \<lparr>x_offset = Some 0, y_offset = Some 3, x_scale = None,
                              y_scale = None\<rparr>,
           cell_a = Inserted ''/tmp/xlsx_gallery_0/f00000025.jpg'',
           cell_b = ''00:00:01''\<rparr>"
  by (simp add: row_simps example_env_facts path_join_def)

theorem centering_offsets_witness:
  "(\<exists>r. write_row example_env True True (Fin (1 / 4)) (Fin 25) 1924 3 ''/shots'' 1
           ''f00000025.jpg'' (''/tmp/xlsx_gallery_0/f00000025.jpg'', 160, 120) = Inr r
        \<and> layout_w r = 160 \<and> layout_h r = 120
        \<and> \<bar>1924 - layout_w r\<bar> < 2 ^ 53 \<and> \<bar>3 :: int\<bar> < 2 ^ 52
        \<and> x_offset (insert_options r) = Some (spec_offset 1924 160)
        \<and> y_offset (insert_options r) = Some (spec_offset 126 120)
        \<and> half_gap 1924 160 = Inr 882 \<and> half_gap 126 120 = Inr 3
        \<and> xlsx_offset (x_offset (insert_options r)) = (1924 - 160) div 2
        \<and> pixels_to_row_points 126 = Inr (row_points r))
   \<and> spec_offset 1924 160 = 882 \<and> spec_offset 126 120 = 3
   \<and> (\<exists>r. write_row example_env True False (Fin (1 / 4)) (Fin 25) 1924 3 ''/shots'' 1
           ''f00000025.jpg'' (''/tmp/xlsx_gallery_0/f00000025.jpg'', 160, 120) = Inr r
        \<and> x_offset (insert_options r) = None \<and> y_offset (insert_options r) = None
        \<and> xlsx_offset (x_offset (insert_options r)) = 0)
   \<and> (\<exists>r. write_row example_env True True (Fin (1 / 4)) (Fin 25) 160 3 ''/shots'' 1
           ''f00000025.jpg'' (''/tmp/xlsx_gallery_0/f00000025.jpg'', 160, 120) = Inr r
        \<and> layout_w r = 160
        \<and> xlsx_offset (x_offset (insert_options r)) = 0)"
proof -
  let ?r1 = "\<lparr>row_number = 1, row_points = Fin (189 / 2), row_centered = True,
           layout_w = 160, layout_h = 120,
           insert_options = \<lparr>x_offset = Some 882, y_offset = Some 3, x_scale = None,
                              y_scale = None\<rparr>,
           cell_a = Inserted ''/tmp/xlsx_gallery_0/f00000025.jpg'',
           cell_b = ''00:00:01''\<rparr>"
  let ?r2 = "\<lparr>row_number = 1, row_points = Fin (189 / 2), row_centered = False,
           layout_w = 160, layout_h = 120,
           insert_options = \<lparr>x_offset = None, y_offset = None, x_scale = None,
                              y_scale = None\<rparr>,
           cell_a = Inserted ''/tmp/xlsx_gallery_0/f00000025.jpg'',
           cell_b = ''00:00:01''\<rparr>"
  let ?r3 = "\<lparr>row_number = 1, row_points = Fin (189 / 2), row_centered = True,
           layout_w = 160, layout_h = 120,
           insert_options = \<lparr>x_offset = Some 0, y_offset = Some 3, x_scale = None,
                              y_scale = None\<rparr>,
           cell_a = Inserted ''/tmp/xlsx_gallery_0/f00000025.jpg'',
           cell_b = ''00:00:01''\<rparr>"
  note t1 = centering_offsets [OF ex_row_centered, unfolded Let_def]
  note t2 = centering_offsets [OF ex_row_not_centered, unfolded Let_def]
  note t3 = centering_offsets [OF ex_row_full_width, unfolded Let_def]
  have s: "spec_offset 1924 160 = 882" "spec_offset 126 120 = 3"
    by (simp_all add: spec_offset_div)
  have f1: "layout_w ?r1 = 160" "layout_h ?r1 = 120" "x_offset (insert_options ?r1) = Some 882"
    "y_offset (insert_options ?r1) = Some 3" "row_points ?r1 = Fin (189 / 2)"
    by simp_all
  have b: "\<bar>1924 - layout_w ?r1\<bar> < 2 ^ 53" "\<bar>3 :: int\<bar> < 2 ^ 52" by simp_all
  from t1 have g1: "\<exists>x y. x_offset (insert_options ?r1) = Some x
      \<and> y_offset (insert_options ?r1) = Some y \<and> 0 \<le> x \<and> 0 \<le> y
      \<and> half_gap 1924 (layout_w ?r1) = Inr x
      \<and> half_gap (layout_h ?r1 + 2 * 3) (layout_h ?r1) = Inr y"
    by blast
  then have hg: "half_gap 1924 160 = Inr 882" "half_gap 126 120 = Inr 3"
    unfolding f1 by auto
  from t1 b have g2: "x_offset (insert_options ?r1) = Some (spec_offset 1924 (layout_w ?r1))"
    by blast
  from t1 b have g3: "y_offset (insert_options ?r1)
      = Some (spec_offset (layout_h ?r1 + 2 * 3) (layout_h ?r1))"
    by blast
  have lt: "layout_w ?r1 < 1924" "1924 - layout_w ?r1 < 2 ^ 53" by simp_all
  from t1 lt have g4: "xlsx_offset (x_offset (insert_options ?r1)) = (1924 - layout_w ?r1) div 2"
    by blast
  from t1 have g5: "pixels_to_row_points (layout_h ?r1 + 2 * 3) = Inr (row_points ?r1)"
    by blast
  have 1: "\<exists>r. write_row example_env True True (Fin (1 / 4)) (Fin 25) 1924 3 ''/shots'' 1
           ''f00000025.jpg'' (''/tmp/xlsx_gallery_0/f00000025.jpg'', 160, 120) = Inr r
        \<and> layout_w r = 160 \<and> layout_h r = 120
        \<and> \<bar>1924 - layout_w r\<bar> < 2 ^ 53 \<and> \<bar>3 :: int\<bar> < 2 ^ 52
        \<and> x_offset (insert_options r) = Some (spec_offset 1924 160)
        \<and> y_offset (insert_options r) = Some (spec_offset 126 120)
        \<and> half_gap 1924 160 = Inr 882 \<and> half_gap 126 120 = Inr 3
        \<and> xlsx_offset (x_offset (insert_options r)) = (1924 - 160) div 2
        \<and> pixels_to_row_points 126 = Inr (row_points r)"
  proof (intro exI [of _ ?r1] conjI)
    show "write_row example_env True True (Fin (1 / 4)) (Fin 25) 1924 3 ''/shots'' 1
           ''f00000025.jpg'' (''/tmp/xlsx_gallery_0/f00000025.jpg'', 160, 120) = Inr ?r1"
      by (rule ex_row_centered)
    show "x_offset (insert_options ?r1) = Some (spec_offset 1924 160)" using g2 by simp
    show "y_offset (insert_options ?r1) = Some (spec_offset 126 120)" using g3 by simp
    show "xlsx_offset (x_offset (insert_options ?r1)) = (1924 - 160) div 2" using g4 by simp
    show "pixels_to_row_points 126 = Inr (row_points ?r1)" using g5 by simp
  qed (use hg b in simp_all)
  from t2 have g6: "x_offset (insert_options ?r2) = None \<and> y_offset (insert_options ?r2) = None
      \<and> xlsx_offset (x_offset (insert_options ?r2)) = 0"
    by blast
  have 2: "\<exists>r. write_row example_env True False (Fin (1 / 4)) (Fin 25) 1924 3 ''/shots'' 1
           ''f00000025.jpg'' (''/tmp/xlsx_gallery_0/f00000025.jpg'', 160, 120) = Inr r
        \<and> x_offset (insert_options r) = None \<and> y_offset (insert_options r) = None
        \<and> xlsx_offset (x_offset (insert_options r)) = 0"
    using ex_row_not_centered g6 by blast
  have e3: "layout_w ?r3 = 160" by simp
  with t3 have g7: "xlsx_offset (x_offset (insert_options ?r3)) = 0" by blast
  have 3: "\<exists>r. write_row example_env True True (Fin (1 / 4)) (Fin 25) 160 3 ''/shots'' 1
           ''f00000025.jpg'' (''/tmp/xlsx_gallery_0/f00000025.jpg'', 160, 120) = Inr r
        \<and> layout_w r = 160
        \<and> xlsx_offset (x_offset (insert_options r)) = 0"
    using ex_row_full_width e3 g7 by blast
  from 1 2 3 s show ?thesis by blast
qed

lemma processed_width_le_Max:
  assumes "i < length ps"
  shows "fst (snd (ps ! i)) \<le> Max (set (map (\<lambda>(p, w, h). w) ps))"
proof -
  from assms have "ps ! i \<in> set ps" by simp
  then have "fst (snd (ps ! i)) \<in> set (map (\<lambda>(p, w, h). w) ps)"
    by (force simp: split_beta)
  then show ?thesis by simp
qed

text \<open>
  Claim C1: for every list of images that is not empty, once the first loop has sized
  all of them, the pixel width of column A is the largest width among all entries of
  \<open>processed\<close> plus twice the horizontal padding. It is a function of the complete list
  (one entry per image), so every image plus its padding fits the column; in the
  workbook the run builds, the width set on the sheet is its conversion, and every
  row's horizontal offset is computed from this one value.
\<close>

theorem column_width_shared:
  assumes "imgs \<noteq> []"
    and "preprocess e (arg_resize a = Physical \<and> pil_available e) (arg_images_dir a)
           (mkdtemp e) (scale_of (arg_scale a)) imgs = Inr processed"
  shows "(let col = Max (set (map (\<lambda>(p, w, h). w) processed)) + 2 * arg_pad_x a
          in column_pixels processed (arg_pad_x a) = col
             \<and> length processed = length imgs
             \<and> (\<forall>i<length imgs. fst (snd (processed ! i)) + 2 * arg_pad_x a \<le> col)
             \<and> (\<forall>wb. export_workbook e a imgs = Inr wb \<longrightarrow>
                   pixels_to_col_width col = Inr (col_a_width wb)
                   \<and> length (rows wb) = length imgs
                   \<and> (\<forall>i<length imgs.
                         layout_w (rows wb ! i) = fst (snd (processed ! i))
                         \<and> layout_w (rows wb ! i) + 2 * arg_pad_x a \<le> col
                         \<and> (if do_center_of (arg_center a)
                            then \<exists>x. half_gap col (layout_w (rows wb ! i)) = Inr x
                                   \<and> x_offset (insert_options (rows wb ! i)) = Some x
                            else x_offset (insert_options (rows wb ! i)) = None))))"
proof -
  define up where "up = (arg_resize a = Physical \<and> pil_available e)"
  define col where "col = Max (set (map (\<lambda>(p, w, h). w) processed)) + 2 * arg_pad_x a"
  note ps = assms(2) [folded up_def]
  have len: "length processed = length imgs" using ps by (rule preprocess_Inr(1))
  with assms(1) have ne: "map (\<lambda>(p, w, h). w) processed \<noteq> []" by auto
  have c: "column_pixels processed (arg_pad_x a) = col"
    unfolding column_pixels_def Let_def col_def by (simp only: py_max_default_Max [OF ne])
  have le: "fst (snd (processed ! i)) + 2 * arg_pad_x a \<le> col" if "i < length imgs" for i
    using processed_width_le_Max [of i processed] that len unfolding col_def by simp
  have w: "pixels_to_col_width col = Inr (col_a_width wb)
      \<and> length (rows wb) = length imgs
      \<and> (\<forall>i<length imgs.
            layout_w (rows wb ! i) = fst (snd (processed ! i))
            \<and> layout_w (rows wb ! i) + 2 * arg_pad_x a \<le> col
            \<and> (if do_center_of (arg_center a)
               then \<exists>x. half_gap col (layout_w (rows wb ! i)) = Inr x
                      \<and> x_offset (insert_options (rows wb ! i)) = Some x
               else x_offset (insert_options (rows wb ! i)) = None))"
    if wb: "export_workbook e a imgs = Inr wb" for wb
  proof -
    from export_workbook_Inr [OF wb] ps obtain
      cw: "pixels_to_col_width (column_pixels processed (arg_pad_x a)) = Inr (col_a_width wb)"
      and l: "length (rows wb) = length imgs"
      and rw: "\<forall>i<length imgs.
          write_row e up (do_center_of (arg_center a)) (scale_of (arg_scale a))
            (fps_of (arg_fps a)) (column_pixels processed (arg_pad_x a)) (arg_pad_y a)
            (arg_images_dir a) (i + 1) (imgs ! i) (processed ! i) = Inr (rows wb ! i)"
      unfolding up_def [symmetric] by auto
    have row: "layout_w (rows wb ! i) = fst (snd (processed ! i))
        \<and> layout_w (rows wb ! i) + 2 * arg_pad_x a \<le> col
        \<and> (if do_center_of (arg_center a)
           then \<exists>x. half_gap col (layout_w (rows wb ! i)) = Inr x
                  \<and> x_offset (insert_options (rows wb ! i)) = Some x
           else x_offset (insert_options (rows wb ! i)) = None)"
      if i: "i < length imgs" for i
    proof -
      note wr = rw [rule_format, OF i, unfolded c]
      from write_row_Inr [OF wr] obtain w h xo yo where
        ls: "layout_size e up (scale_of (arg_scale a)) (processed ! i) = Inr (w, h)"
        and co: "center_offsets (do_center_of (arg_center a)) col (h + 2 * arg_pad_y a) w h
                   = Inr (xo, yo)"
        and lw: "layout_w (rows wb ! i) = w"
        and xv: "x_offset (insert_options (rows wb ! i)) = xo"
        by (metis (no_types, lifting) sheet_row.select_convs(4,6) insert_opts.select_convs(1))
      from preprocess_Inr(2) [OF ps i]
      have "layout_size e up (scale_of (arg_scale a)) (processed ! i) = Inr (snd (processed ! i))"
        by (rule layout_size_preprocess)
      with ls have wv: "w = fst (snd (processed ! i))" by simp
      have x: "(if do_center_of (arg_center a)
           then \<exists>x. half_gap col w = Inr x \<and> xo = Some x
           else xo = None)"
      proof (cases "do_center_of (arg_center a)")
        case True
        with co show ?thesis by (auto simp: center_offsets_True)
      next
        case False
        with co show ?thesis by (simp add: center_offsets_False)
      qed
      from le [OF i] x show ?thesis unfolding lw xv wv by simp
    qed
    from cw l row show ?thesis unfolding c by blast
  qed
  show ?thesis
    unfolding Let_def col_def [symmetric]
    using c len le w by blast
qed

theorem column_width_shared_witness:
  "example_imgs \<noteq> []
   \<and> preprocess example_env
        (arg_resize (example_args Physical) = Physical \<and> pil_available example_env)
        (arg_images_dir (example_args Physical)) (mkdtemp example_env)
        (scale_of (arg_scale (example_args Physical))) example_imgs
       = Inr [(''/tmp/xlsx_gallery_0/f00000025.jpg'', 160, 120),
              (''/shots/f00000750.png'', 1920, 1080),
              (''/tmp/xlsx_gallery_0/f00090000.png'', 150, 112)]
   \<and> column_pixels [(''/tmp/xlsx_gallery_0/f00000025.jpg'', 160, 120),
                     (''/shots/f00000750.png'', 1920, 1080),
                     (''/tmp/xlsx_gallery_0/f00090000.png'', 150, 112)] 2 = 1924
   \<and> (\<exists>wb. export_workbook example_env (example_args Physical) example_imgs = Inr wb
         \<and> pixels_to_col_width 1924 = Inr (col_a_width wb)
         \<and> col_a_width wb = Fin (4822772145604901 / 17592186044416)
         \<and> length (rows wb) = 3
         \<and> layout_w (rows wb ! 0) = 160
         \<and> half_gap 1924 160 = Inr 882
         \<and> x_offset (insert_options (rows wb ! 0)) = Some 882
         \<and> layout_w (rows wb ! 2) = 150
         \<and> half_gap 1924 150 = Inr 887
         \<and> x_offset (insert_options (rows wb ! 2)) = Some 887)"
proof -
  let ?ps = "[(''/tmp/xlsx_gallery_0/f00000025.jpg'', 160 :: int, 120 :: int),
              (''/shots/f00000750.png'', 1920, 1080),
              (''/tmp/xlsx_gallery_0/f00090000.png'', 150, 112)]"
  have ne: "example_imgs \<noteq> []" by (simp add: example_imgs_def)
  have pre: "preprocess example_env
        (arg_resize (example_args Physical) = Physical \<and> pil_available example_env)
        (arg_images_dir (example_args Physical)) (mkdtemp example_env)
        (scale_of (arg_scale (example_args Physical))) example_imgs = Inr ?ps"
    using ex_pre_phys by (simp add: example_facts)
  note t = column_width_shared [OF ne pre, unfolded Let_def]
  from t have c: "column_pixels ?ps 2 = 1924" by (simp add: example_facts)
  from t ex_export_phys obtain wb where
    wb: "export_workbook example_env (example_args Physical) example_imgs = Inr wb"
    and cw: "pixels_to_col_width
        (Max (set (map (\<lambda>(p, w, h). w) ?ps)) + 2 * arg_pad_x (example_args Physical))
          = Inr (col_a_width wb)"
    and len: "length (rows wb) = length example_imgs"
    and rs: "\<forall>i<length example_imgs.
        layout_w (rows wb ! i) = fst (snd (?ps ! i))
        \<and> layout_w (rows wb ! i) + 2 * arg_pad_x (example_args Physical)
            \<le> Max (set (map (\<lambda>(p, w, h). w) ?ps)) + 2 * arg_pad_x (example_args Physical)
        \<and> (if do_center_of (arg_center (example_args Physical))
           then \<exists>x. half_gap (Max (set (map (\<lambda>(p, w, h). w) ?ps))
                          + 2 * arg_pad_x (example_args Physical)) (layout_w (rows wb ! i))
                        = Inr x
                  \<and> x_offset (insert_options (rows wb ! i)) = Some x
           else x_offset (insert_options (rows wb ! i)) = None)"
    by blast
  have m: "Max (set (map (\<lambda>(p, w, h). w) ?ps)) + 2 * arg_pad_x (example_args Physical) = 1924"
    by (simp add: example_facts)
  from wb ex_export_phys have v: "col_a_width wb = Fin (4822772145604901 / 17592186044416)"
    by auto
  have h: "half_gap 1924 160 = Inr 882" "half_gap 1924 150 = Inr 887"
    by (simp_all add: half_gap_exact)
  from rs [rule_format, of 0] have r0: "layout_w (rows wb ! 0) = 160
      \<and> x_offset (insert_options (rows wb ! 0)) = Some 882"
    unfolding m using h by (auto simp: example_facts)
  from rs [rule_format, of 2] have r2: "layout_w (rows wb ! 2) = 150
      \<and> x_offset (insert_options (rows wb ! 2)) = Some 887"
    unfolding m using h by (auto simp: example_facts)
  from cw have cw': "pixels_to_col_width 1924 = Inr (col_a_width wb)" unfolding m .
  from len have len': "length (rows wb) = 3" by (simp add: example_facts)
  from ne pre c wb cw' v len' r0 r2 h show ?thesis by blast
qed

lemma image_open_dims:
  "pil_available e \<Longrightarrow>
   (case get_image_size e src of (w, h) \<Rightarrow> (py_or0 w, py_or0 h))
     = (case image_open e src of Some (w, h) \<Rightarrow> (w, h) | None \<Rightarrow> (0, 0))"
  by (simp add: get_image_size_def py_or0_def split: option.splits)

lemma main_completes:
  assumes "list_images_sorted e (arg_images_dir a) = Inr imgs" and "imgs \<noteq> []"
    and "makedirs_error e (path_dirname (arg_out a)) = None"
    and "arg_resize a = Physical \<and> pil_available e \<longrightarrow> mkdtemp_error e = None"
    and "export_workbook e a imgs = Inr wb"
    and "workbook_close_error e (arg_out a) = None"
  shows "fst (main e a) = Returned 0"
    and "SaveWorkbook (arg_out a) wb \<in> set (snd (main e a))"
  using assms by (auto simp: main_def Let_def)

text \<open>
  Claim C7 as stated fails when it is the decoding that fails: the record of the image
  is then the original file with the dimensions 0 by 0, which are not its original
  dimensions. In the sample run where \<open>f00000750.png\<close> cannot be opened, its record is
  \<open>(''/shots/f00000750.png'', 0, 0)\<close>.
\<close>

theorem decode_failure_records_no_dimensions:
  "image_open corrupt_env ''/shots/f00000750.png'' = None
   \<and> preprocess corrupt_env True ''/shots'' ''/tmp/xlsx_gallery_0'' (Fin (1 / 4)) example_imgs
       = Inr [(''/tmp/xlsx_gallery_0/f00000025.jpg'', 160, 120),
              (''/shots/f00000750.png'', 0, 0),
              (''/tmp/xlsx_gallery_0/f00090000.png'', 150, 112)]
   \<and> \<not> spec_degraded_record corrupt_env ''/shots/f00000750.png''
         (''/shots/f00000750.png'', 0, 0)"
  using ex_pre_corrupt by (simp add: corrupt_facts spec_degraded_record_def)

text \<open>
  Claim C7, amended: in physical-resize mode the first loop raises nothing and leaves
  one entry of \<open>processed\<close> for every image, whatever fails. An image whose resize
  succeeds is recorded as the resized copy. An image whose decoding or resizing fails
  is recorded as the original file, with the width and height the decoder reports when
  the file can be opened, and with 0 by 0 when it cannot. If the second loop raises
  nothing either (no overflow in a timecode, a row height or an offset), the workbook
  has one row for every image, laid out at the recorded size; the row of a failed
  image carries no scale factor, and column A holds the original image, or its path as
  text when the insertion fails too. If moreover the output directory and the temporary
  directory can be made and \<^verbatim>\<open>wb.close()\<close> returns, the run returns 0 and saves that
  workbook.
\<close>

theorem physical_resize_failure_degrades:
  assumes "arg_resize a = Physical" and "pil_available e"
  shows "\<exists>processed.
     preprocess e True (arg_images_dir a) (mkdtemp e) (scale_of (arg_scale a)) imgs
       = Inr processed
     \<and> length processed = length imgs
     \<and> (\<forall>i<length imgs.
          let src = path_join (arg_images_dir a) (imgs ! i);
              dst = path_join (mkdtemp e) (imgs ! i)
          in case physical_resize_image e src dst (scale_of (arg_scale a)) of
               Inr (nw, nh) \<Rightarrow> processed ! i = (dst, nw, nh)
             | Inl err \<Rightarrow>
                 processed ! i
                   = (src, (case image_open e src of
                              Some (w, h) \<Rightarrow> (w, h) | None \<Rightarrow> (0, 0))))
     \<and> (\<forall>wb. export_workbook e a imgs = Inr wb \<longrightarrow>
           length (rows wb) = length imgs
           \<and> (\<forall>i<length imgs.
                let src = path_join (arg_images_dir a) (imgs ! i);
                    dst = path_join (mkdtemp e) (imgs ! i);
                    r = rows wb ! i
                in row_number r = i + 1
                   \<and> (layout_w r, layout_h r) = snd (processed ! i)
                   \<and> x_scale (insert_options r) = None
                   \<and> y_scale (insert_options r) = None
                   \<and> (case physical_resize_image e src dst (scale_of (arg_scale a)) of
                        Inr d \<Rightarrow>
                          cell_a r = (if insert_image_ok e dst then Inserted dst
                                      else PathText src)
                      | Inl err \<Rightarrow>
                          cell_a r = (if insert_image_ok e src then Inserted src
                                      else PathText src)))
           \<and> (list_images_sorted e (arg_images_dir a) = Inr imgs \<and> imgs \<noteq> []
                \<and> makedirs_error e (path_dirname (arg_out a)) = None
                \<and> mkdtemp_error e = None
                \<and> workbook_close_error e (arg_out a) = None
              \<longrightarrow> fst (main e a) = Returned 0
                  \<and> SaveWorkbook (arg_out a) wb \<in> set (snd (main e a))))"
proof -
  from assms have up: "(arg_resize a = Physical \<and> pil_available e) = True" by simp
  define dir where "dir = arg_images_dir a"
  define tmp where "tmp = mkdtemp e"
  define sc where "sc = scale_of (arg_scale a)"
  from preprocess_physical_total obtain processed where
    ps: "preprocess e True dir tmp sc imgs = Inr processed" by blast
  have len: "length processed = length imgs" using ps by (rule preprocess_Inr(1))
  have pi: "preprocess_image e True dir tmp sc (imgs ! i) = Inr (processed ! i)"
    if "i < length imgs" for i
    using ps that by (rule preprocess_Inr(2))
  have rec: "(let src = path_join dir (imgs ! i); dst = path_join tmp (imgs ! i)
              in case physical_resize_image e src dst sc of
                   Inr (nw, nh) \<Rightarrow> processed ! i = (dst, nw, nh)
                 | Inl err \<Rightarrow>
                     processed ! i
                       = (src, (case image_open e src of
                                  Some (w, h) \<Rightarrow> (w, h) | None \<Rightarrow> (0, 0))))"
    if i: "i < length imgs" for i
  proof -
    define src where "src = path_join dir (imgs ! i)"
    define dst where "dst = path_join tmp (imgs ! i)"
    show ?thesis
    proof (cases "physical_resize_image e src dst sc")
      case (Inr d)
      obtain nw nh where d: "d = (nw, nh)" by (cases d)
      from pi [OF i] Inr d have "processed ! i = (dst, nw, nh)"
        unfolding preprocess_image_def Let_def src_def [symmetric] dst_def [symmetric]
        by simp
      with Inr d show ?thesis
        unfolding Let_def src_def [symmetric] dst_def [symmetric] by simp
    next
      case (Inl err)
      from pi [OF i] Inl image_open_dims [OF assms(2), of src]
      have "processed ! i
          = (src, (case image_open e src of Some (w, h) \<Rightarrow> (w, h) | None \<Rightarrow> (0, 0)))"
        unfolding preprocess_image_def Let_def src_def [symmetric] dst_def [symmetric]
        by (auto simp: split_beta)
      with Inl show ?thesis
        unfolding Let_def src_def [symmetric] dst_def [symmetric] by simp
    qed
  qed
  have book: "length (rows wb) = length imgs
      \<and> (\<forall>i<length imgs.
           let src = path_join dir (imgs ! i); dst = path_join tmp (imgs ! i);
               r = rows wb ! i
           in row_number r = i + 1
              \<and> (layout_w r, layout_h r) = snd (processed ! i)
              \<and> x_scale (insert_options r) = None
              \<and> y_scale (insert_options r) = None
              \<and> (case physical_resize_image e src dst sc of
                   Inr d \<Rightarrow>
                     cell_a r = (if insert_image_ok e dst then Inserted dst else PathText src)
                 | Inl err \<Rightarrow>
                     cell_a r = (if insert_image_ok e src then Inserted src else PathText src)))
      \<and> (list_images_sorted e dir = Inr imgs \<and> imgs \<noteq> []
           \<and> makedirs_error e (path_dirname (arg_out a)) = None
           \<and> mkdtemp_error e = None
           \<and> workbook_close_error e (arg_out a) = None
         \<longrightarrow> fst (main e a) = Returned 0
             \<and> SaveWorkbook (arg_out a) wb \<in> set (snd (main e a)))"
    if wb: "export_workbook e a imgs = Inr wb" for wb
  proof -
    from export_workbook_Inr [OF wb] ps obtain
      l: "length (rows wb) = length imgs"
      and rw: "\<forall>i<length imgs.
          write_row e True (do_center_of (arg_center a)) sc (fps_of (arg_fps a))
            (column_pixels processed (arg_pad_x a)) (arg_pad_y a) dir (i + 1) (imgs ! i)
            (processed ! i) = Inr (rows wb ! i)"
      unfolding up dir_def [symmetric] tmp_def [symmetric] sc_def [symmetric] by auto
    have row: "(let src = path_join dir (imgs ! i); dst = path_join tmp (imgs ! i);
               r = rows wb ! i
           in row_number r = i + 1
              \<and> (layout_w r, layout_h r) = snd (processed ! i)
              \<and> x_scale (insert_options r) = None
              \<and> y_scale (insert_options r) = None
              \<and> (case physical_resize_image e src dst sc of
                   Inr d \<Rightarrow>
                     cell_a r = (if insert_image_ok e dst then Inserted dst else PathText src)
                 | Inl err \<Rightarrow>
                     cell_a r = (if insert_image_ok e src then Inserted src else PathText src)))"
      if i: "i < length imgs" for i
    proof -
      define src where "src = path_join dir (imgs ! i)"
      define dst where "dst = path_join tmp (imgs ! i)"
      note wr = rw [rule_format, OF i]
      from write_row_Inr [OF wr] obtain w h tc pts xo yo where
        ls: "layout_size e True sc (processed ! i) = Inr (w, h)"
        and r: "rows wb ! i = \<lparr>row_number = i + 1, row_points = pts,
            row_centered = do_center_of (arg_center a), layout_w = w, layout_h = h,
            insert_options = \<lparr>x_offset = xo, y_offset = yo,
                               x_scale = (if True then None else Some sc),
                               y_scale = (if True then None else Some sc)\<rparr>,
            cell_a = (if insert_image_ok e (fst (processed ! i))
                      then Inserted (fst (processed ! i))
                      else PathText (path_join dir (imgs ! i))),
            cell_b = tc\<rparr>"
        by blast
      from layout_size_preprocess [OF pi [OF i]] ls
      have wh: "(w, h) = snd (processed ! i)" by simp
      have f: "row_number (rows wb ! i) = i + 1"
        "(layout_w (rows wb ! i), layout_h (rows wb ! i)) = (w, h)"
        "x_scale (insert_options (rows wb ! i)) = None"
        "y_scale (insert_options (rows wb ! i)) = None"
        "cell_a (rows wb ! i) = (if insert_image_ok e (fst (processed ! i))
                      then Inserted (fst (processed ! i)) else PathText src)"
        by (simp_all add: r src_def)
      from rec [OF i, unfolded Let_def, folded src_def dst_def]
      have c: "(case physical_resize_image e src dst sc of
                   Inr d \<Rightarrow> fst (processed ! i) = dst
                 | Inl err \<Rightarrow> fst (processed ! i) = src)"
        by (auto split: sum.splits)
      show ?thesis
        unfolding Let_def src_def [symmetric] dst_def [symmetric] f wh
        using c by (auto split: sum.splits)
    qed
    have run: "fst (main e a) = Returned 0
        \<and> SaveWorkbook (arg_out a) wb \<in> set (snd (main e a))"
      if "list_images_sorted e dir = Inr imgs \<and> imgs \<noteq> []
           \<and> makedirs_error e (path_dirname (arg_out a)) = None
           \<and> mkdtemp_error e = None
           \<and> workbook_close_error e (arg_out a) = None"
    proof -
      from that have "list_images_sorted e (arg_images_dir a) = Inr imgs" "imgs \<noteq> []"
        "makedirs_error e (path_dirname (arg_out a)) = None"
        "arg_resize a = Physical \<and> pil_available e \<longrightarrow> mkdtemp_error e = None"
        "workbook_close_error e (arg_out a) = None"
        by (simp_all add: dir_def)
      from main_completes [OF this(1-4) wb this(5)] show ?thesis by simp
    qed
    from l row run show ?thesis by blast
  qed
  show ?thesis
    unfolding dir_def [symmetric] tmp_def [symmetric] sc_def [symmetric]
    using ps len rec book by blast
qed

text \<open>
  The theorem on the two sample runs over three images: in the first the second image
  can be opened but not resized, and keeps 1920 by 1080; in the second it cannot be
  opened, and is recorded as 0 by 0. Both runs return 0 with three rows, the second row
  holding the path as text.
\<close>

theorem physical_resize_failure_degrades_witness:
  "arg_resize (example_args Physical) = Physical
   \<and> pil_available example_env \<and> pil_available corrupt_env
   \<and> (\<exists>processed wb.
         preprocess example_env True ''/shots'' ''/tmp/xlsx_gallery_0'' (Fin (1 / 4))
           example_imgs = Inr processed
         \<and> processed ! 1 = (''/shots/f00000750.png'', 1920, 1080)
         \<and> processed ! 2 = (''/tmp/xlsx_gallery_0/f00090000.png'', 150, 112)
         \<and> export_workbook example_env (example_args Physical) example_imgs = Inr wb
         \<and> length (rows wb) = 3
         \<and> (layout_w (rows wb ! 1), layout_h (rows wb ! 1)) = (1920, 1080)
         \<and> cell_a (rows wb ! 1) = PathText ''/shots/f00000750.png''
         \<and> cell_a (rows wb ! 2) = Inserted ''/tmp/xlsx_gallery_0/f00090000.png''
         \<and> fst (main example_env (example_args Physical)) = Returned 0
         \<and> SaveWorkbook ''/out/gallery.xlsx'' wb
             \<in> set (snd (main example_env (example_args Physical))))
   \<and> (\<exists>processed wb.
         preprocess corrupt_env True ''/shots'' ''/tmp/xlsx_gallery_0'' (Fin (1 / 4))
           example_imgs = Inr processed
         \<and> processed ! 1 = (''/shots/f00000750.png'', 0, 0)
         \<and> export_workbook corrupt_env (example_args Physical) example_imgs = Inr wb
         \<and> length (rows wb) = 3
         \<and> (layout_w (rows wb ! 1), layout_h (rows wb ! 1)) = (0, 0)
         \<and> cell_a (rows wb ! 1) = PathText ''/shots/f00000750.png''
         \<and> fst (main corrupt_env (example_args Physical)) = Returned 0)"
proof -
  have h: "arg_resize (example_args Physical) = Physical" "pil_available example_env"
    "pil_available corrupt_env"
    by (simp_all add: example_facts corrupt_facts)
  have f1: "physical_resize_image example_env ''/shots/f00000750.png''
      ''/tmp/xlsx_gallery_0/f00000750.png'' (Fin (1 / 4)) = Inl ImageError"
    by (simp add: physical_resize_image_def round_scaled_def float_of_int_def
        py_round_float_def py_round_def fl_simps example_env_def)
  have f2: "physical_resize_image example_env ''/shots/f00090000.png''
      ''/tmp/xlsx_gallery_0/f00090000.png'' (Fin (1 / 4)) = Inr (150, 112)"
    by (simp add: physical_resize_image_def round_scaled_def float_of_int_def
        py_round_float_def py_round_def fl_simps example_env_def)
  have f3: "physical_resize_image corrupt_env ''/shots/f00000750.png''
      ''/tmp/xlsx_gallery_0/f00000750.png'' (Fin (1 / 4)) = Inl ImageError"
    by (simp add: physical_resize_image_def corrupt_facts)
  have n: "example_imgs \<noteq> []" "path_dirname ''/out/gallery.xlsx'' = ''/out''"
    by (simp_all add: example_imgs_def path_dirname_def)
  from physical_resize_failure_degrades [OF h(1,2), of example_imgs] obtain processed where
    p: "preprocess example_env True ''/shots'' ''/tmp/xlsx_gallery_0'' (Fin (1 / 4))
          example_imgs = Inr processed"
    and r: "\<forall>i<length example_imgs.
          let src = path_join ''/shots'' (example_imgs ! i);
              dst = path_join ''/tmp/xlsx_gallery_0'' (example_imgs ! i)
          in case physical_resize_image example_env src dst (Fin (1 / 4)) of
               Inr (nw, nh) \<Rightarrow> processed ! i = (dst, nw, nh)
             | Inl err \<Rightarrow>
                 processed ! i
                   = (src, (case image_open example_env src of
                              Some (w, h) \<Rightarrow> (w, h) | None \<Rightarrow> (0, 0)))"
    and b: "\<forall>wb. export_workbook example_env (example_args Physical) example_imgs = Inr wb \<longrightarrow>
           length (rows wb) = length example_imgs
           \<and> (\<forall>i<length example_imgs.
                let src = path_join ''/shots'' (example_imgs ! i);
                    dst = path_join ''/tmp/xlsx_gallery_0'' (example_imgs ! i);
                    r = rows wb ! i
                in row_number r = i + 1
                   \<and> (layout_w r, layout_h r) = snd (processed ! i)
                   \<and> x_scale (insert_options r) = None
                   \<and> y_scale (insert_options r) = None
                   \<and> (case physical_resize_image example_env src dst (Fin (1 / 4)) of
                        Inr d \<Rightarrow>
                          cell_a r = (if insert_image_ok example_env dst then Inserted dst
                                      else PathText src)
                      | Inl err \<Rightarrow>
                          cell_a r = (if insert_image_ok example_env src then Inserted src
                                      else PathText src)))
           \<and> (list_images_sorted example_env ''/shots'' = Inr example_imgs
                \<and> example_imgs \<noteq> []
                \<and> makedirs_error example_env (path_dirname ''/out/gallery.xlsx'') = None
                \<and> mkdtemp_error example_env = None
                \<and> workbook_close_error example_env ''/out/gallery.xlsx'' = None
              \<longrightarrow> fst (main example_env (example_args Physical)) = Returned 0
                  \<and> SaveWorkbook ''/out/gallery.xlsx'' wb
                      \<in> set (snd (main example_env (example_args Physical))))"
    unfolding example_facts by blast
  obtain wb where wb: "export_workbook example_env (example_args Physical) example_imgs = Inr wb"
    using ex_export_phys by blast
  from r [rule_format, of 1] f1
  have p1: "processed ! 1 = (''/shots/f00000750.png'', 1920, 1080)"
    by (simp add: example_facts example_imgs_def path_join_def example_env_facts)
  from r [rule_format, of 2] f2
  have p2: "processed ! 2 = (''/tmp/xlsx_gallery_0/f00090000.png'', 150, 112)"
    by (simp add: example_facts example_imgs_def path_join_def)
  note bw = b [rule_format, OF wb]
  from bw have l: "length (rows wb) = 3" by (simp add: example_facts)
  from bw [THEN conjunct2, THEN conjunct1, rule_format, of 1] f1 p1
  have r1: "(layout_w (rows wb ! 1), layout_h (rows wb ! 1)) = (1920, 1080)
      \<and> cell_a (rows wb ! 1) = PathText ''/shots/f00000750.png''"
    by (simp add: example_facts example_imgs_def path_join_def example_env_facts Let_def)
  from bw [THEN conjunct2, THEN conjunct1, rule_format, of 2] f2
  have r2: "cell_a (rows wb ! 2) = Inserted ''/tmp/xlsx_gallery_0/f00090000.png''"
    by (simp add: example_facts example_imgs_def path_join_def example_env_facts Let_def)
  from bw [THEN conjunct2, THEN conjunct2] example_listing n
  have m: "fst (main example_env (example_args Physical)) = Returned 0
      \<and> SaveWorkbook ''/out/gallery.xlsx'' wb
          \<in> set (snd (main example_env (example_args Physical)))"
    by (simp add: example_env_facts)
  from physical_resize_failure_degrades [OF h(1,3), of example_imgs] obtain processed' where
    p': "preprocess corrupt_env True ''/shots'' ''/tmp/xlsx_gallery_0'' (Fin (1 / 4))
          example_imgs = Inr processed'"
    and r': "\<forall>i<length example_imgs.
          let src = path_join ''/shots'' (example_imgs ! i);
              dst = path_join ''/tmp/xlsx_gallery_0'' (example_imgs ! i)
          in case physical_resize_image corrupt_env src dst (Fin (1 / 4)) of
               Inr (nw, nh) \<Rightarrow> processed' ! i = (dst, nw, nh)
             | Inl err \<Rightarrow>
                 processed' ! i
                   = (src, (case image_open corrupt_env src of
                              Some (w, h) \<Rightarrow> (w, h) | None \<Rightarrow> (0, 0)))"
    and b': "\<forall>wb. export_workbook corrupt_env (example_args Physical) example_imgs = Inr wb \<longrightarrow>
           length (rows wb) = length example_imgs
           \<and> (\<forall>i<length example_imgs.
                let src = path_join ''/shots'' (example_imgs ! i);
                    dst = path_join ''/tmp/xlsx_gallery_0'' (example_imgs ! i);
                    r = rows wb ! i
                in row_number r = i + 1
                   \<and> (layout_w r, layout_h r) = snd (processed' ! i)
                   \<and> x_scale (insert_options r) = None
                   \<and> y_scale (insert_options r) = None
                   \<and> (case physical_resize_image corrupt_env src dst (Fin (1 / 4)) of
                        Inr d \<Rightarrow>
                          cell_a r = (if insert_image_ok corrupt_env dst then Inserted dst
                                      else PathText src)
                      | Inl err \<Rightarrow>
                          cell_a r = (if insert_image_ok corrupt_env src then Inserted src
                                      else PathText src)))
           \<and> (list_images_sorted corrupt_env ''/shots'' = Inr example_imgs
                \<and> example_imgs \<noteq> []
                \<and> makedirs_error corrupt_env (path_dirname ''/out/gallery.xlsx'') = None
                \<and> mkdtemp_error corrupt_env = None
                \<and> workbook_close_error corrupt_env ''/out/gallery.xlsx'' = None
              \<longrightarrow> fst (main corrupt_env (example_args Physical)) = Returned 0
                  \<and> SaveWorkbook ''/out/gallery.xlsx'' wb
                      \<in> set (snd (main corrupt_env (example_args Physical))))"
    unfolding example_facts corrupt_facts by blast
  obtain wb' where
    wb': "export_workbook corrupt_env (example_args Physical) example_imgs = Inr wb'"
    using ex_export_corrupt by blast
  from r' [rule_format, of 1] f3
  have p1': "processed' ! 1 = (''/shots/f00000750.png'', 0, 0)"
    by (simp add: example_facts example_imgs_def path_join_def corrupt_facts)
  note bw' = b' [rule_format, OF wb']
  from bw' have l': "length (rows wb') = 3" by (simp add: example_facts)
  from bw' [THEN conjunct2, THEN conjunct1, rule_format, of 1] f3 p1'
  have r1': "(layout_w (rows wb' ! 1), layout_h (rows wb' ! 1)) = (0, 0)
      \<and> cell_a (rows wb' ! 1) = PathText ''/shots/f00000750.png''"
    by (simp add: example_facts example_imgs_def path_join_def corrupt_facts Let_def)
  from bw' [THEN conjunct2, THEN conjunct2] corrupt_listing n
  have m': "fst (main corrupt_env (example_args Physical)) = Returned 0"
    by (simp add: corrupt_facts)
  from h p p1 p2 wb l r1 r2 m p' p1' wb' l' r1' m' show ?thesis by blast
qed

subsection \<open>Layout engine: scale-only mode\<close>

lemma round_scaled_Fin:
  assumes "\<bar>v\<bar> < 2 ^ 53" and "fl (of_int v * s) = Fin y"
  shows "round_scaled v (Fin s) = Inr (py_round y)"
  using assms by (simp add: round_scaled_def float_of_int_def fl_of_int py_round_float_def)

text \<open>Below \<open>2 ^ 51\<close> pixels the conversion to points is exact.\<close>

lemma three_quarters: "fdiv (Fin 3) (Fin 4) = Inr (Fin (3 / 4))"
  by (simp add: fdiv_def fl_simps)

lemma pixels_to_row_points_exact:
  assumes "\<bar>n\<bar> < 2 ^ 51"
  shows "pixels_to_row_points n = Inr (Fin (max 1 (3 / 4 * of_int n)))"
proof -
  from assms have n: "\<bar>n\<bar> < 2 ^ 53" and n3: "\<bar>3 * n\<bar> < 2 ^ 53" by simp_all
  have "fl (of_int (3 * n) / 2 ^ 2) = Fin (of_int (3 * n) / 2 ^ 2)"
    using n3 by (rule fl_dyadic) simp
  then have m: "fl (3 * of_int n / 4) = Fin (3 * of_int n / 4)" by simp
  have "pixels_to_row_points n = Inr (py_max_float (Fin 1) (Fin (3 * of_int n / 4)))"
    by (simp add: pixels_to_row_points_def three_quarters float_of_int_def fl_of_int [OF n] m)
  then show ?thesis by (simp add: py_max_float_def max_def)
qed

text \<open>
  Claim C8: in scale-only mode (the run does not resize physically), for every image
  whose size \<open>ow\<close> by \<open>oh\<close> can be read, in the workbook the run builds: the row is laid
  out for \<^verbatim>\<open>int(round(ow * scale))\<close> by \<^verbatim>\<open>int(round(oh * scale))\<close>, where the product is a
  double and \<^verbatim>\<open>round\<close> rounds it to the nearest integer, a tie going to the even one; the
  height of the row is the conversion to points of that height plus \<open>2 pad_y\<close> (three
  quarters of it, and at least 1.0); and yet the file inserted is the original one, with
  the options \<open>x_scale = y_scale = scale\<close>.
\<close>

theorem scale_only_row_height:
  assumes "export_workbook e a imgs = Inr wb"
    and "\<not> (arg_resize a = Physical \<and> pil_available e)"
    and "i < length imgs"
    and "get_image_size e (path_join (arg_images_dir a) (imgs ! i)) = (Some ow, Some oh)"
  shows "(let sc = scale_of (arg_scale a);
              src = path_join (arg_images_dir a) (imgs ! i);
              r = rows wb ! i
          in \<exists>w h. round_scaled ow sc = Inr w \<and> round_scaled oh sc = Inr h
               \<and> layout_w r = w \<and> layout_h r = h
               \<and> pixels_to_row_points (h + 2 * arg_pad_y a) = Inr (row_points r)
               \<and> (\<bar>h + 2 * arg_pad_y a\<bar> < 2 ^ 51 \<longrightarrow>
                     row_points r = Fin (max 1 (3 / 4 * of_int (h + 2 * arg_pad_y a))))
               \<and> (\<forall>s y. sc = Fin s \<and> \<bar>oh\<bar> < 2 ^ 53 \<and> fl (of_int oh * s) = Fin y
                     \<longrightarrow> h = py_round y)
               \<and> x_scale (insert_options r) = Some sc
               \<and> y_scale (insert_options r) = Some sc
               \<and> cell_a r = (if insert_image_ok e src then Inserted src else PathText src))"
proof -
  from assms(2) have up: "(arg_resize a = Physical \<and> pil_available e) = False" by simp
  define sc where "sc = scale_of (arg_scale a)"
  define src where "src = path_join (arg_images_dir a) (imgs ! i)"
  from export_workbook_Inr [OF assms(1)] obtain ps where
    ps: "preprocess e False (arg_images_dir a) (mkdtemp e) sc imgs = Inr ps"
    and rw: "\<forall>i<length imgs.
        write_row e False (do_center_of (arg_center a)) sc (fps_of (arg_fps a))
          (column_pixels ps (arg_pad_x a)) (arg_pad_y a) (arg_images_dir a) (i + 1) (imgs ! i)
          (ps ! i) = Inr (rows wb ! i)"
    unfolding up sc_def [symmetric] by auto
  from preprocess_Inr(2) [OF ps assms(3)]
  have pi: "preprocess_image e False (arg_images_dir a) (mkdtemp e) sc (imgs ! i) = Inr (ps ! i)" .
  have g: "get_image_size e src = (Some ow, Some oh)" unfolding src_def by (rule assms(4))
  from pi g obtain w h where w: "round_scaled ow sc = Inr w" and h: "round_scaled oh sc = Inr h"
    and pv: "ps ! i = (src, w, h)"
    unfolding preprocess_image_def Let_def src_def [symmetric]
    by (auto simp: and_then_eq_Inr py_or0_def)
  from layout_size_preprocess [OF pi] pv
  have l: "layout_size e False sc (ps ! i) = Inr (w, h)" by simp
  from write_row_Inr [OF rw [rule_format, OF assms(3)]] l obtain tc pts xo yo where
    pts: "pixels_to_row_points (h + 2 * arg_pad_y a) = Inr pts"
    and r: "rows wb ! i = \<lparr>row_number = i + 1, row_points = pts,
        row_centered = do_center_of (arg_center a), layout_w = w, layout_h = h,
        insert_options = \<lparr>x_offset = xo, y_offset = yo,
                           x_scale = (if False then None else Some sc),
                           y_scale = (if False then None else Some sc)\<rparr>,
        cell_a = (if insert_image_ok e (fst (ps ! i)) then Inserted (fst (ps ! i))
                  else PathText (path_join (arg_images_dir a) (imgs ! i))),
        cell_b = tc\<rparr>"
    by auto
  have f: "layout_w (rows wb ! i) = w" "layout_h (rows wb ! i) = h"
    "row_points (rows wb ! i) = pts"
    "x_scale (insert_options (rows wb ! i)) = Some sc"
    "y_scale (insert_options (rows wb ! i)) = Some sc"
    "cell_a (rows wb ! i) = (if insert_image_ok e src then Inserted src else PathText src)"
    by (simp_all add: r pv src_def)
  have ex: "pts = Fin (max 1 (3 / 4 * of_int (h + 2 * arg_pad_y a)))"
    if "\<bar>h + 2 * arg_pad_y a\<bar> < 2 ^ 51"
    using pixels_to_row_points_exact [OF that] pts by simp
  have rd: "h = py_round y" if "sc = Fin s \<and> \<bar>oh\<bar> < 2 ^ 53 \<and> fl (of_int oh * s) = Fin y" for s y
  proof -
    from that have "round_scaled oh (Fin s) = Inr (py_round y)"
      by (intro round_scaled_Fin) simp_all
    with h that show ?thesis by simp
  qed
  show ?thesis
    unfolding Let_def sc_def [symmetric] src_def [symmetric] f
    using w h pts ex rd by blast
qed

text \<open>
  The theorem on the scale-only run at 0.15: the third image, 600 by 450, is laid out
  at 90 by 68 and its row is 51.0 points high.
\<close>

theorem scale_only_row_height_witness:
  "\<not> (arg_resize scale_only_args = Physical \<and> pil_available example_env)
   \<and> (2::nat) < length example_imgs
   \<and> get_image_size example_env (path_join (arg_images_dir scale_only_args) (example_imgs ! 2))
       = (Some 600, Some 450)
   \<and> scale_of (arg_scale scale_only_args) = Fin double_0_15
   \<and> \<bar>450 :: int\<bar> < 2 ^ 53
   \<and> fl (of_int 450 * double_0_15) = Fin (135 / 2)
   \<and> py_round (135 / 2) = 68
   \<and> \<bar>68 + 2 * arg_pad_y scale_only_args\<bar> < 2 ^ 51
   \<and> (\<exists>wb. export_workbook example_env scale_only_args example_imgs = Inr wb
         \<and> layout_w (rows wb ! 2) = 90
         \<and> layout_h (rows wb ! 2) = 68
         \<and> row_points (rows wb ! 2) = Fin 51
         \<and> x_scale (insert_options (rows wb ! 2)) = Some (Fin double_0_15)
         \<and> y_scale (insert_options (rows wb ! 2)) = Some (Fin double_0_15)
         \<and> cell_a (rows wb ! 2) = Inserted ''/shots/f00090000.png'')"
proof -
  obtain wb where wb: "export_workbook example_env scale_only_args example_imgs = Inr wb"
    using ex_export_scale_only by blast
  have h1: "\<not> (arg_resize scale_only_args = Physical \<and> pil_available example_env)"
    by (simp add: scale_only_facts)
  have h2: "2 < length example_imgs" by (simp add: example_facts)
  have h3: "get_image_size example_env
      (path_join (arg_images_dir scale_only_args) (example_imgs ! 2)) = (Some 600, Some 450)"
    by (simp add: scale_only_facts get_image_size_def example_env_def example_imgs_def
        path_join_def)
  have s: "scale_of (arg_scale scale_only_args) = Fin double_0_15"
    by (simp add: scale_only_facts)
  have y: "fl (of_int 450 * double_0_15) = Fin (135 / 2)" using fl_scaled_450 by simp
  have pr: "py_round (135 / 2) = 68" by (simp add: py_round_def)
  have b: "\<bar>450 :: int\<bar> < 2 ^ 53" "\<bar>68 + 2 * arg_pad_y scale_only_args\<bar> < 2 ^ 51"
    by (simp_all add: scale_only_facts)
  from scale_only_row_height [OF wb h1 h2 h3, unfolded Let_def s] obtain w h where
    w: "round_scaled 600 (Fin double_0_15) = Inr w"
    and lw: "layout_w (rows wb ! 2) = w" and lh: "layout_h (rows wb ! 2) = h"
    and ex: "\<bar>h + 2 * arg_pad_y scale_only_args\<bar> < 2 ^ 51 \<longrightarrow>
        row_points (rows wb ! 2) = Fin (max 1 (3 / 4 * of_int (h + 2 * arg_pad_y scale_only_args)))"
    and rd: "\<forall>s y. Fin double_0_15 = Fin s \<and> \<bar>450 :: int\<bar> < 2 ^ 53
        \<and> fl (of_int 450 * s) = Fin y \<longrightarrow> h = py_round y"
    and xs: "x_scale (insert_options (rows wb ! 2)) = Some (Fin double_0_15)"
    and ys: "y_scale (insert_options (rows wb ! 2)) = Some (Fin double_0_15)"
    and ca: "cell_a (rows wb ! 2)
        = (if insert_image_ok example_env
                (path_join (arg_images_dir scale_only_args) (example_imgs ! 2))
           then Inserted (path_join (arg_images_dir scale_only_args) (example_imgs ! 2))
           else PathText (path_join (arg_images_dir scale_only_args) (example_imgs ! 2)))"
    by blast
  from rd y b(1) have hv: "h = 68" unfolding pr [symmetric] by blast
  from w have wv: "w = 90"
    by (simp add: round_scaled_def float_of_int_def py_round_float_def py_round_def fl_simps
        fl_scaled_600)
  from ex hv have rp: "row_points (rows wb ! 2) = Fin 51" by (simp add: scale_only_facts)
  from ca have cv: "cell_a (rows wb ! 2) = Inserted ''/shots/f00090000.png''"
    by (simp add: scale_only_facts example_imgs_def path_join_def example_env_facts)
  from h1 h2 h3 s b y pr wb lw lh wv hv rp xs ys cv show ?thesis by blast
qed

subsection \<open>The run without images\<close>






subsection \<open>The centering flag\<close>

text \<open>
  Claim C10: centering is off exactly when the value of \<^verbatim>\<open>--center\<close>, stripped of white
  space at both ends, is one of \<open>0\<close>, \<open>false\<close>, \<open>False\<close>, \<open>no\<close>, \<open>No\<close>. Any other value, such
  as \<open>FALSE\<close>, \<open>NO\<close>, \<open>off\<close> or the empty string, turns it on, and then every row of the
  workbook the run builds has the centered text format and both offsets of the image;
  when it is off no row has either.
\<close>

theorem centering_flag:
  "(do_center_of c \<longleftrightarrow> py_strip c \<notin> {''0'', ''false'', ''False'', ''no'', ''No''})
   \<and> do_center_of ''FALSE'' \<and> do_center_of ''NO'' \<and> do_center_of ''off''
   \<and> do_center_of [] \<and> do_center_of ''1'' \<and> do_center_of ''n o''
   \<and> \<not> do_center_of ''0'' \<and> \<not> do_center_of ''false'' \<and> \<not> do_center_of ''False''
   \<and> \<not> do_center_of ''no'' \<and> \<not> do_center_of ''No'' \<and> \<not> do_center_of '' no  ''
   \<and> (\<forall>wb. export_workbook e a imgs = Inr wb \<longrightarrow>
         (\<forall>r\<in>set (rows wb).
            row_centered r = do_center_of (arg_center a)
            \<and> (x_offset (insert_options r) \<noteq> None) = do_center_of (arg_center a)
            \<and> (y_offset (insert_options r) \<noteq> None) = do_center_of (arg_center a)))"
proof -
  have a: "do_center_of c \<longleftrightarrow> py_strip c \<notin> {''0'', ''false'', ''False'', ''no'', ''No''}"
    by (simp add: do_center_of_def)
  have b: "do_center_of ''FALSE''" "do_center_of ''NO''" "do_center_of ''off''"
    "do_center_of []" "do_center_of ''1''" "do_center_of ''n o''"
    by (simp_all add: do_center_of_def py_strip_def py_isspace_def)
  have c: "\<not> do_center_of ''0''" "\<not> do_center_of ''false''" "\<not> do_center_of ''False''"
    "\<not> do_center_of ''no''" "\<not> do_center_of ''No''" "\<not> do_center_of '' no  ''"
    by (simp_all add: do_center_of_def py_strip_def py_isspace_def)
  have d: "row_centered r = do_center_of (arg_center a)
      \<and> (x_offset (insert_options r) \<noteq> None) = do_center_of (arg_center a)
      \<and> (y_offset (insert_options r) \<noteq> None) = do_center_of (arg_center a)"
    if wb: "export_workbook e a imgs = Inr wb" and "r \<in> set (rows wb)" for wb r
  proof -
    from that(2) obtain i where i: "i < length (rows wb)" and r: "r = rows wb ! i"
      by (auto simp: in_set_conv_nth)
    from export_workbook_Inr [OF wb] obtain ps where
      l: "length (rows wb) = length imgs"
      and rw: "\<forall>i<length imgs.
          write_row e (arg_resize a = Physical \<and> pil_available e) (do_center_of (arg_center a))
            (scale_of (arg_scale a)) (fps_of (arg_fps a)) (column_pixels ps (arg_pad_x a))
            (arg_pad_y a) (arg_images_dir a) (i + 1) (imgs ! i) (ps ! i)
          = Inr (rows wb ! i)"
      by blast
    from i l have il: "i < length imgs" by simp
    from write_row_Inr [OF rw [rule_format, OF il]] obtain w h tc pts xo yo where
      co: "center_offsets (do_center_of (arg_center a)) (column_pixels ps (arg_pad_x a))
             (h + 2 * arg_pad_y a) w h = Inr (xo, yo)"
      and rv: "rows wb ! i = \<lparr>row_number = i + 1, row_points = pts,
          row_centered = do_center_of (arg_center a), layout_w = w, layout_h = h,
          insert_options = \<lparr>x_offset = xo, y_offset = yo,
              x_scale = (if arg_resize a = Physical \<and> pil_available e then None
                         else Some (scale_of (arg_scale a))),
              y_scale = (if arg_resize a = Physical \<and> pil_available e then None
                         else Some (scale_of (arg_scale a)))\<rparr>,
          cell_a = (if insert_image_ok e (fst (ps ! i)) then Inserted (fst (ps ! i))
                    else PathText (path_join (arg_images_dir a) (imgs ! i))),
          cell_b = tc\<rparr>"
      by blast
    have f: "row_centered r = do_center_of (arg_center a)"
      "x_offset (insert_options r) = xo" "y_offset (insert_options r) = yo"
      by (simp_all add: r rv)
    show ?thesis
    proof (cases "do_center_of (arg_center a)")
      case True
      with co show ?thesis unfolding f by (auto simp: center_offsets_True)
    next
      case False
      with co show ?thesis unfolding f by (simp add: center_offsets_False)
    qed
  qed
  from a b c d show ?thesis by blast
qed

theorem centering_flag_witness:
  "(\<exists>wb. export_workbook example_env (example_args Physical) example_imgs = Inr wb
      \<and> rows wb ! 0 \<in> set (rows wb)
      \<and> row_centered (rows wb ! 0)
      \<and> x_offset (insert_options (rows wb ! 0)) \<noteq> None
      \<and> y_offset (insert_options (rows wb ! 0)) \<noteq> None)
   \<and> do_center_of (arg_center (example_args Physical))"
proof -
  obtain wb where wb: "export_workbook example_env (example_args Physical) example_imgs = Inr wb"
    using ex_export_phys by blast
  from export_workbook_Inr [OF wb] have "length (rows wb) = 3" by (auto simp: example_facts)
  then have m: "rows wb ! 0 \<in> set (rows wb)" by simp
  from centering_flag [of "''1''" example_env "example_args Physical" example_imgs] wb
  have "\<forall>r\<in>set (rows wb). row_centered r = do_center_of (arg_center (example_args Physical))
         \<and> (x_offset (insert_options r) \<noteq> None) = do_center_of (arg_center (example_args Physical))
         \<and> (y_offset (insert_options r) \<noteq> None) = do_center_of (arg_center (example_args Physical))"
    by blast
  with m have "row_centered (rows wb ! 0) = do_center_of (arg_center (example_args Physical))
      \<and> (x_offset (insert_options (rows wb ! 0)) \<noteq> None)
          = do_center_of (arg_center (example_args Physical))
      \<and> (y_offset (insert_options (rows wb ! 0)) \<noteq> None)
          = do_center_of (arg_center (example_args Physical))"
    by blast
  with m wb show ?thesis by (auto simp: example_facts)
qed

end
